theory Spec2Isabelle
  imports Main "HOL-Library.AList"
begin

section \<open>JavaScript values read from the event stream\<close>

text \<open>
  Every frame of the stream is parsed from JSON, and the TypeScript types are erased when
  the program runs, so a field of an event holds any JSON value or is missing. A value is
  a \<open>json\<close>; a value that may be \<open>undefined\<close> is a \<open>json option\<close>, with \<open>None\<close> for
  \<open>undefined\<close>. An object is the list of its own properties in insertion order; the first
  binding of a key is the one that is read. JavaScript enumerates keys that look like
  array indices before the others; the model keeps insertion order for them too, which
  can change the order of the parsed parameters and of the extracted connections, not
  their membership. Strings are lists of 8-bit characters, and
  the case conversion is that of ASCII. A \<open>TypeError\<close> that the program does not catch is
  the result \<open>Inl TypeError\<close>.
\<close>

datatype json =
    JNull
  | JBool bool
  | JNum int nat
  | JStr string
  | JArr "json list"
  | JObj "(string \<times> json) list"

type_synonym obj = "(string \<times> json) list"
type_synonym jsval = "json option"

datatype error = TypeError

fun truthy :: "jsval \<Rightarrow> bool" where
  "truthy None = False"
| "truthy (Some JNull) = False"
| "truthy (Some (JBool b)) = b"
| "truthy (Some (JNum m k)) = (m \<noteq> 0)"
| "truthy (Some (JStr s)) = (s \<noteq> [])"
| "truthy (Some (JArr xs)) = True"
| "truthy (Some (JObj fs)) = True"

definition js_or :: "jsval \<Rightarrow> jsval \<Rightarrow> jsval" where
  "js_or a b = (if truthy a then a else b)"

definition js_or_val :: "jsval \<Rightarrow> json \<Rightarrow> json" where
  "js_or_val a b = (case a of None \<Rightarrow> b | Some x \<Rightarrow> if truthy a then x else b)"

fun is_primitive :: "json \<Rightarrow> bool" where
  "is_primitive (JArr xs) = False"
| "is_primitive (JObj fs) = False"
| "is_primitive v = True"

definition strict_eq :: "jsval \<Rightarrow> jsval \<Rightarrow> bool" where
  "strict_eq a b =
     (case a of
        None \<Rightarrow> b = None
      | Some x \<Rightarrow> is_primitive x \<and> b = Some x)"

definition is_str :: "jsval \<Rightarrow> string \<Rightarrow> bool" where
  "is_str v s = (v = Some (JStr s))"

fun is_array :: "jsval \<Rightarrow> bool" where
  "is_array (Some (JArr xs)) = True"
| "is_array v = False"

fun typeof_object :: "jsval \<Rightarrow> bool" where
  "typeof_object (Some JNull) = True"
| "typeof_object (Some (JArr xs)) = True"
| "typeof_object (Some (JObj fs)) = True"
| "typeof_object v = False"

text \<open>
  Strict equality compares primitive values; an array or an object parsed from one event
  is never the same object as one parsed from another. Property access \<open>x.k\<close> throws
  on \<open>undefined\<close> and \<open>null\<close>, and \<open>x?.k\<close> gives \<open>undefined\<close> there. The names the program
  reads (\<open>step\<close>, \<open>data\<close>, \<open>nodes\<close>, \<open>nodeId\<close>, ...) are own properties of objects only:
  none of them is inherited, an index or \<open>length\<close>. The one exception is \<open>link\<close>, a method
  that strings inherit: \<open>get_prop\<close> gives \<open>undefined\<close> for it, which matters only when
  \<open>transformDatabaseInfo\<close> reads the link of a database entry that is a string.
\<close>

fun get_prop :: "json \<Rightarrow> string \<Rightarrow> jsval" where
  "get_prop (JObj fs) k = map_of fs k"
| "get_prop v k = None"

fun get :: "jsval \<Rightarrow> string \<Rightarrow> error + jsval" where
  "get None k = Inl TypeError"
| "get (Some JNull) k = Inl TypeError"
| "get (Some v) k = Inr (get_prop v k)"

fun opt_get :: "jsval \<Rightarrow> string \<Rightarrow> jsval" where
  "opt_get None k = None"
| "opt_get (Some JNull) k = None"
| "opt_get (Some v) k = get_prop v k"

definition bindE :: "error + 'a \<Rightarrow> ('a \<Rightarrow> error + 'b) \<Rightarrow> error + 'b" where
  "bindE m f = (case m of Inl e \<Rightarrow> Inl e | Inr x \<Rightarrow> f x)"

fun mapE :: "('a \<Rightarrow> error + 'b) \<Rightarrow> 'a list \<Rightarrow> error + 'b list" where
  "mapE f [] = Inr []"
| "mapE f (x # xs) =
     (case f x of
        Inl e \<Rightarrow> Inl e
      | Inr y \<Rightarrow> (case mapE f xs of Inl e \<Rightarrow> Inl e | Inr ys \<Rightarrow> Inr (y # ys)))"

subsection \<open>Strings\<close>

text \<open>
  \<open>to_string\<close> is the conversion that string concatenation and template literals apply.
  A number \<open>JNum m k\<close> stands for \<open>m / 10 ^ k\<close> and prints in positional notation;
  JavaScript numbers are doubles and print with an exponent from \<open>1e21\<close> on and below
  \<open>1e-6\<close>, so the printed form agrees for decimals of ordinary size only.
  \<open>entries\<close> lists the own enumerable properties, as \<open>Object.entries\<close> and object spread
  see them; \<open>assign\<close> is \<open>{...a, ...b}\<close>.
\<close>

fun show_nat :: "nat \<Rightarrow> string" where
  "show_nat n =
     (if n < 10 then [''0123456789'' ! n]
      else show_nat (n div 10) @ [''0123456789'' ! (n mod 10)])"

definition show_frac :: "nat \<Rightarrow> nat \<Rightarrow> string" where
  "show_frac n k = (let ds = show_nat n in replicate (k - length ds) (CHR ''0'') @ ds)"

definition show_num :: "int \<Rightarrow> nat \<Rightarrow> string" where
  "show_num m k =
     (let n = nat \<bar>m\<bar>;
          body = show_nat (n div 10 ^ k) @ (if k = 0 then [] else CHR ''.'' # show_frac (n mod 10 ^ k) k)
      in if m < 0 then CHR ''-'' # body else body)"

definition join :: "string \<Rightarrow> string list \<Rightarrow> string" where
  "join sep xs = (case xs of [] \<Rightarrow> [] | y # ys \<Rightarrow> y @ concat (map (\<lambda>z. sep @ z) ys))"

fun to_string :: "json \<Rightarrow> string" where
  "to_string JNull = ''null''"
| "to_string (JBool b) = (if b then ''true'' else ''false'')"
| "to_string (JNum m k) = show_num m k"
| "to_string (JStr s) = s"
| "to_string (JArr xs) = join '','' (map (\<lambda>x. if x = JNull then [] else to_string x) xs)"
| "to_string (JObj fs) = ''[object Object]''"

definition js_str :: "jsval \<Rightarrow> string" where
  "js_str v = (case v of None \<Rightarrow> ''undefined'' | Some x \<Rightarrow> to_string x)"

definition toLowerCase :: "string \<Rightarrow> string" where
  "toLowerCase s =
     map (\<lambda>c. case map_of (zip ''ABCDEFGHIJKLMNOPQRSTUVWXYZ'' ''abcdefghijklmnopqrstuvwxyz'') c of
                 None \<Rightarrow> c | Some l \<Rightarrow> l) s"

definition startsWith :: "string \<Rightarrow> string \<Rightarrow> bool" where
  "startsWith s p = (take (length p) s = p)"

definition endsWith :: "string \<Rightarrow> string \<Rightarrow> bool" where
  "endsWith s p = (length p \<le> length s \<and> drop (length s - length p) s = p)"

fun str_includes :: "string \<Rightarrow> string \<Rightarrow> bool" where
  "str_includes [] p = (p = [])"
| "str_includes (c # cs) p = (startsWith (c # cs) p \<or> str_includes cs p)"

fun entries :: "jsval \<Rightarrow> obj" where
  "entries (Some (JObj fs)) = fs"
| "entries (Some (JArr xs)) = map (\<lambda>(i, x). (show_nat i, x)) (enumerate 0 xs)"
| "entries (Some (JStr s)) = map (\<lambda>(i, c). (show_nat i, JStr [c])) (enumerate 0 s)"
| "entries v = []"

definition assign :: "obj \<Rightarrow> obj \<Rightarrow> obj" where
  "assign a b = fold (\<lambda>(k, v) acc. AList.update k v acc) b a"


subsection \<open>Regular expressions\<close>

text \<open>
  The patterns of the program are sequences of literal characters, character classes,
  a repeated character class (greedy or lazy, with a least count), capture groups and
  the two anchors. A pattern is matched by backtracking, leftmost first, as the
  JavaScript engine does.
\<close>

datatype cls = Dot | OneOf "char list" | NoneOf "char list"

fun cls_ok :: "cls \<Rightarrow> char \<Rightarrow> bool" where
  "cls_ok Dot c = (c \<noteq> CHR 0x0A \<and> c \<noteq> CHR 0x0D)"
| "cls_ok (OneOf cs) c = (c \<in> set cs)"
| "cls_ok (NoneOf cs) c = (c \<notin> set cs)"

datatype rx = Lit char | Cls cls | Rep bool nat cls | Open | Close | Bos | Eos

fun find_first :: "('a \<Rightarrow> 'b option) \<Rightarrow> 'a list \<Rightarrow> 'b option" where
  "find_first f [] = None"
| "find_first f (x # xs) = (case f x of None \<Rightarrow> find_first f xs | Some y \<Rightarrow> Some y)"

lemma find_first_cong [fundef_cong]:
  "xs = ys \<Longrightarrow> (\<And>x. x \<in> set ys \<Longrightarrow> f x = g x) \<Longrightarrow> find_first f xs = find_first g ys"
  by (induction ys arbitrary: xs) (auto split: option.splits)

fun rx_match :: "rx list \<Rightarrow> string \<Rightarrow> nat \<Rightarrow> nat \<Rightarrow> string list \<Rightarrow> (string list \<times> nat) option" where
  "rx_match [] inp pos opn caps = Some (caps, pos)"
| "rx_match (Lit c # r) inp pos opn caps =
     (if pos < length inp \<and> inp ! pos = c then rx_match r inp (Suc pos) opn caps else None)"
| "rx_match (Cls k # r) inp pos opn caps =
     (if pos < length inp \<and> cls_ok k (inp ! pos) then rx_match r inp (Suc pos) opn caps else None)"
| "rx_match (Rep greedy least k # r) inp pos opn caps =
     (let avail = length (takeWhile (cls_ok k) (drop pos inp));
          counts = (if greedy then rev [least..<Suc avail] else [least..<Suc avail])
      in find_first (\<lambda>n. rx_match r inp (pos + n) opn caps) counts)"
| "rx_match (Open # r) inp pos opn caps = rx_match r inp pos pos caps"
| "rx_match (Close # r) inp pos opn caps =
     rx_match r inp pos opn (caps @ [take (pos - opn) (drop opn inp)])"
| "rx_match (Bos # r) inp pos opn caps = (if pos = 0 then rx_match r inp pos opn caps else None)"
| "rx_match (Eos # r) inp pos opn caps =
     (if pos = length inp then rx_match r inp pos opn caps else None)"

definition exec_from :: "rx list \<Rightarrow> string \<Rightarrow> nat \<Rightarrow> (nat \<times> nat \<times> string list) option" where
  "exec_from r s start =
     find_first
       (\<lambda>i. case rx_match r s i 0 [] of None \<Rightarrow> None | Some (caps, e) \<Rightarrow> Some (i, e, caps))
       [start..<Suc (length s)]"

definition str_match :: "rx list \<Rightarrow> string \<Rightarrow> string list option" where
  "str_match r s =
     (case exec_from r s 0 of
        None \<Rightarrow> None
      | Some (i, e, caps) \<Rightarrow> Some (take (e - i) (drop i s) # caps))"

definition group1 :: "string list \<Rightarrow> string" where
  "group1 m = (case m of a # g # rest \<Rightarrow> g | _ \<Rightarrow> [])"

lemma find_first_SomeD: "find_first f xs = Some y \<Longrightarrow> \<exists>x \<in> set xs. f x = Some y"
  by (induction xs) (auto split: option.splits)

lemma rx_match_Rep:
  "rx_match (Rep greedy least k # r) inp pos opn caps = Some y \<Longrightarrow>
   \<exists>n. rx_match r inp (pos + n) opn caps = Some y"
  unfolding rx_match.simps Let_def by (blast dest: find_first_SomeD)

lemma rx_match_end: "rx_match r inp pos opn caps = Some (cs, e) \<Longrightarrow> pos \<le> e"
proof (induction r arbitrary: pos opn caps)
  case Nil
  then show ?case by simp
next
  case (Cons a r)
  show ?case
  proof (cases a)
    case (Lit c)
    with Cons.prems have "rx_match r inp (Suc pos) opn caps = Some (cs, e)"
      by (simp split: if_splits)
    from Cons.IH[OF this] show ?thesis by simp
  next
    case (Cls k)
    with Cons.prems have "rx_match r inp (Suc pos) opn caps = Some (cs, e)"
      by (simp split: if_splits)
    from Cons.IH[OF this] show ?thesis by simp
  next
    case (Rep greedy least k)
    with Cons.prems obtain n where "rx_match r inp (pos + n) opn caps = Some (cs, e)"
      by (blast dest: rx_match_Rep)
    from Cons.IH[OF this] show ?thesis by simp
  next
    case Open
    with Cons.prems have "rx_match r inp pos pos caps = Some (cs, e)" by simp
    from Cons.IH[OF this] show ?thesis .
  next
    case Close
    with Cons.prems
    have "rx_match r inp pos opn (caps @ [take (pos - opn) (drop opn inp)]) = Some (cs, e)"
      by simp
    from Cons.IH[OF this] show ?thesis .
  next
    case Bos
    with Cons.prems have "rx_match r inp pos opn caps = Some (cs, e)"
      by (simp split: if_splits)
    from Cons.IH[OF this] show ?thesis .
  next
    case Eos
    with Cons.prems have "rx_match r inp pos opn caps = Some (cs, e)"
      by (simp split: if_splits)
    from Cons.IH[OF this] show ?thesis .
  qed
qed

lemma exec_from_bounds:
  "exec_from r s start = Some (i, e, caps) \<Longrightarrow> start \<le> i \<and> i \<le> e"
  by (auto simp: exec_from_def dest!: find_first_SomeD rx_match_end split: option.splits)

function match_all_from :: "rx list \<Rightarrow> string \<Rightarrow> nat \<Rightarrow> string list" where
  "match_all_from r s start =
     (if length s < start then []
      else case exec_from r s start of
             None \<Rightarrow> []
           | Some (i, e, caps) \<Rightarrow>
               take (e - i) (drop i s) # match_all_from r s (if e = i then Suc e else e))"
  by pat_completeness auto
termination
proof (relation "measure (\<lambda>(r, s, start). Suc (length s) - start)")
  show "wf (measure (\<lambda>(r, s, start). Suc (length s) - start))" by simp
next
  fix r :: "rx list" and s :: string and start :: nat
    and x2 :: "nat \<times> nat \<times> string list" and i :: nat and y :: "nat \<times> string list"
    and e :: nat and caps :: "string list"
  assume a: "\<not> length s < start" "exec_from r s start = Some x2" "(i, y) = x2" "(e, caps) = y"
  then have "exec_from r s start = Some (i, e, caps)" by simp
  from exec_from_bounds[OF this] a(1)
  show "((r, s, if e = i then Suc e else e), r, s, start)
        \<in> measure (\<lambda>(r, s, start). Suc (length s) - start)"
    by auto
qed

definition str_match_all :: "rx list \<Rightarrow> string \<Rightarrow> string list option" where
  "str_match_all r s = (case match_all_from r s 0 of [] \<Rightarrow> None | m # ms \<Rightarrow> Some (m # ms))"

definition str_replace :: "rx list \<Rightarrow> (string list \<Rightarrow> string) \<Rightarrow> string \<Rightarrow> string" where
  "str_replace r rep s =
     (case exec_from r s 0 of
        None \<Rightarrow> s
      | Some (i, e, caps) \<Rightarrow> take i s @ rep caps @ drop e s)"


subsection \<open>\<open>JSON.parse\<close>\<close>

text \<open>
  The built-in parser, by recursive descent. \<open>None\<close> is the \<open>SyntaxError\<close> it throws.
  A number \<open>JNum m k\<close> is the decimal \<open>m / 10 ^ k\<close> of a literal without exponent,
  its fraction cut after the last digit that is not zero; a string holds the characters
  of its literal, with the escapes resolved. Characters are bytes: the escape of a code
  unit below 256 is that character, and the escapes of higher code units and the number
  literals with an exponent are outside the model and are refused.
\<close>

definition is_ws :: "char \<Rightarrow> bool" where
  "is_ws c = (c = CHR '' '' \<or> c = CHR 0x09 \<or> c = CHR 0x0A \<or> c = CHR 0x0D)"

definition skip_ws :: "string \<Rightarrow> string" where
  "skip_ws s = dropWhile is_ws s"

definition is_digit :: "char \<Rightarrow> bool" where
  "is_digit c = (c \<in> set ''0123456789'')"

definition digit_val :: "char \<Rightarrow> nat" where
  "digit_val c = length (takeWhile (\<lambda>d. d \<noteq> c) ''0123456789'')"

definition hex_val :: "char \<Rightarrow> nat option" where
  "hex_val c =
     (if c \<in> set ''0123456789abcdef'' then Some (length (takeWhile (\<lambda>d. d \<noteq> c) ''0123456789abcdef''))
      else if c \<in> set ''ABCDEF'' then Some (10 + length (takeWhile (\<lambda>d. d \<noteq> c) ''ABCDEF''))
      else None)"

definition unescape :: "char \<Rightarrow> char option" where
  "unescape c =
     (if c = CHR 0x22 \<or> c = CHR 0x5C \<or> c = CHR ''/'' then Some c
      else if c = CHR ''b'' then Some (CHR 0x08)
      else if c = CHR ''f'' then Some (CHR 0x0C)
      else if c = CHR ''n'' then Some (CHR 0x0A)
      else if c = CHR ''r'' then Some (CHR 0x0D)
      else if c = CHR ''t'' then Some (CHR 0x09)
      else None)"

fun parse_string :: "string \<Rightarrow> string \<Rightarrow> (string \<times> string) option" where
  "parse_string [] acc = None"
| "parse_string (c # cs) acc =
     (if c = CHR 0x22 then Some (rev acc, cs)
      else if c = CHR 0x5C then
        (case cs of
           [] \<Rightarrow> None
         | e # r \<Rightarrow>
             if e = CHR ''u'' then
               (case r of
                  h1 # h2 # h3 # h4 # r' \<Rightarrow>
                    (case (hex_val h1, hex_val h2, hex_val h3, hex_val h4) of
                       (Some a, Some b, Some c', Some d) \<Rightarrow>
                         if a = 0 \<and> b = 0 then parse_string r' (char_of (16 * c' + d) # acc)
                         else None
                     | _ \<Rightarrow> None)
                | _ \<Rightarrow> None)
             else
               (case unescape e of
                  None \<Rightarrow> None
                | Some x \<Rightarrow> parse_string r (x # acc)))
      else if of_char c < (32 :: nat) then None
      else parse_string cs (c # acc))"

definition parse_digits :: "string \<Rightarrow> (nat \<times> string) option" where
  "parse_digits s =
     (let ds = takeWhile is_digit s
      in if ds = [] then None
         else Some (foldl (\<lambda>n d. 10 * n + digit_val d) 0 ds, dropWhile is_digit s))"

definition parse_fraction :: "string \<Rightarrow> (nat \<times> nat \<times> string) option" where
  "parse_fraction s =
     (case s of
        [] \<Rightarrow> Some (0, 0, s)
      | c # r \<Rightarrow>
          if c = CHR ''.'' then
            (let ds = takeWhile is_digit r;
                 sig = rev (dropWhile (\<lambda>d. d = CHR ''0'') (rev ds))
             in if ds = [] then None
                else Some (foldl (\<lambda>n d. 10 * n + digit_val d) 0 sig, length sig, dropWhile is_digit r))
          else Some (0, 0, s))"

definition parse_unsigned :: "string \<Rightarrow> (nat \<times> nat \<times> string) option" where
  "parse_unsigned s =
     (case parse_digits s of
        None \<Rightarrow> None
      | Some (n, r) \<Rightarrow>
          if length (takeWhile is_digit s) > 1 \<and> hd s = CHR ''0'' then None
          else
            (case parse_fraction r of
               None \<Rightarrow> None
             | Some (f, k, r') \<Rightarrow>
                 if r' \<noteq> [] \<and> hd r' \<in> set ''eE'' then None
                 else Some (n * 10 ^ k + f, k, r')))"

definition parse_number :: "string \<Rightarrow> (json \<times> string) option" where
  "parse_number s =
     (case s of
        [] \<Rightarrow> None
      | c # r \<Rightarrow>
          if c = CHR ''-'' then
            (case parse_unsigned r of None \<Rightarrow> None | Some (m, k, r') \<Rightarrow> Some (JNum (- int m) k, r'))
          else
            (case parse_unsigned s of None \<Rightarrow> None | Some (m, k, r') \<Rightarrow> Some (JNum (int m) k, r')))"

lemma skip_ws_length: "length (skip_ws s) \<le> length s"
  by (simp add: skip_ws_def length_dropWhile_le)

lemma skip_ws_Cons_length: "skip_ws s = c # r \<Longrightarrow> length r < length s"
  using skip_ws_length[of s] by simp

lemma parse_string_shorter: "parse_string s acc = Some (t, r) \<Longrightarrow> length r < length s"
proof (induction "length s" arbitrary: s acc rule: less_induct)
  case less
  show ?case
  proof (cases s)
    case Nil
    with less.prems show ?thesis by simp
  next
    case (Cons c cs)
    have step: "length r < length s" if "parse_string s' acc' = Some (t, r)" "length s' < length s"
      for s' acc'
      using less.hyps[OF that(2) that(1)] that(2) by simp
    have p: "parse_string (c # cs) acc = Some (t, r)" using less.prems Cons by simp
    have ls: "length s = Suc (length cs)" using Cons by simp
    consider "c = CHR 0x22" | "c \<noteq> CHR 0x22" "c \<noteq> CHR 0x5C" | "c \<noteq> CHR 0x22" "c = CHR 0x5C"
      by blast
    then show ?thesis
    proof cases
      case 1
      with p ls show ?thesis by simp
    next
      case 2
      with p have "parse_string cs (c # acc) = Some (t, r)" by (simp split: if_splits)
      then show ?thesis by (rule step) (simp add: ls)
    next
      case 3
      with p obtain e r0 where cs: "cs = e # r0" by (cases cs) auto
      show ?thesis
      proof (cases "e = CHR ''u''")
        case False
        with 3 p cs obtain x where "parse_string r0 (x # acc) = Some (t, r)"
          by (auto split: option.splits)
        then show ?thesis by (rule step) (simp add: ls cs)
      next
        case True
        with 3 p cs obtain r' acc' where "parse_string r' acc' = Some (t, r)" "length r' < length r0"
          by (auto split: list.splits option.splits if_splits)
        then show ?thesis by (intro step[of r' acc']) (simp_all add: ls cs)
      qed
    qed
  qed
qed

text \<open>
  A value, the elements of an array after \<open>[\<close> and the members of an object after \<open>{\<close>.
  Each step consumes input: the two tests on the length of the rest never fail
  (\<open>parse_shorter\<close> below) and are there for the termination proof.
\<close>

function parse_value :: "string \<Rightarrow> (json \<times> string) option"
  and parse_elems :: "string \<Rightarrow> json list \<Rightarrow> (json \<times> string) option"
  and parse_members :: "string \<Rightarrow> obj \<Rightarrow> (json \<times> string) option" where
  "parse_value s =
     (case skip_ws s of
        [] \<Rightarrow> None
      | c # r \<Rightarrow>
          if c = CHR 0x22 then
            (case parse_string r [] of None \<Rightarrow> None | Some (t, r') \<Rightarrow> Some (JStr t, r'))
          else if c = CHR ''['' then
            (case skip_ws r of
               [] \<Rightarrow> None
             | d # r' \<Rightarrow> if d = CHR '']'' then Some (JArr [], r') else parse_elems (d # r') [])
          else if c = CHR ''{'' then
            (case skip_ws r of
               [] \<Rightarrow> None
             | d # r' \<Rightarrow> if d = CHR ''}'' then Some (JObj [], r') else parse_members (d # r') [])
          else if startsWith (c # r) ''true'' then Some (JBool True, drop 4 (c # r))
          else if startsWith (c # r) ''false'' then Some (JBool False, drop 5 (c # r))
          else if startsWith (c # r) ''null'' then Some (JNull, drop 4 (c # r))
          else parse_number (c # r))"
| "parse_elems s acc =
     (case parse_value s of
        None \<Rightarrow> None
      | Some (v, r) \<Rightarrow>
          if length s \<le> length r then None
          else
            (case skip_ws r of
               [] \<Rightarrow> None
             | d # r' \<Rightarrow>
                 if d = CHR '','' then parse_elems r' (acc @ [v])
                 else if d = CHR '']'' then Some (JArr (acc @ [v]), r')
                 else None))"
| "parse_members s acc =
     (case skip_ws s of
        [] \<Rightarrow> None
      | q # r \<Rightarrow>
          if q \<noteq> CHR 0x22 then None
          else
            (case parse_string r [] of
               None \<Rightarrow> None
             | Some (k, r1) \<Rightarrow>
                 (case skip_ws r1 of
                    [] \<Rightarrow> None
                  | c # r2 \<Rightarrow>
                      if c \<noteq> CHR '':'' then None
                      else
                        (case parse_value r2 of
                           None \<Rightarrow> None
                         | Some (v, r3) \<Rightarrow>
                             if length r2 \<le> length r3 then None
                             else
                               (case skip_ws r3 of
                                  [] \<Rightarrow> None
                                | d # r4 \<Rightarrow>
                                    if d = CHR '','' then parse_members r4 (AList.update k v acc)
                                    else if d = CHR ''}'' then Some (JObj (AList.update k v acc), r4)
                                    else None)))))"
  by pat_completeness auto
termination
proof (relation "measure (\<lambda>x. case x of
                             Inl s \<Rightarrow> 2 * length s
                           | Inr (Inl (s, acc)) \<Rightarrow> 2 * length s + 1
                           | Inr (Inr (s, acc)) \<Rightarrow> 2 * length s + 1)", goal_cases)
  case 1
  then show ?case by simp
next
  case (2 s c r d r')
  then show ?case by (auto dest!: skip_ws_Cons_length)
next
  case (3 s c r d r')
  then show ?case by (auto dest!: skip_ws_Cons_length)
next
  case (4 s acc)
  then show ?case by simp
next
  case (5 s acc x2 v r d r')
  then show ?case by (auto dest!: skip_ws_Cons_length)
next
  case (6 s acc q r x2 k r1 c r2)
  then show ?case by (auto dest!: skip_ws_Cons_length parse_string_shorter)
next
  case (7 s acc q r x2 k r1 c r2 x2a v r3 d r4)
  then show ?case by (auto dest!: skip_ws_Cons_length parse_string_shorter)
qed

definition JSON_parse :: "string \<Rightarrow> json option" where
  "JSON_parse s =
     (case parse_value s of
        None \<Rightarrow> None
      | Some (v, r) \<Rightarrow> if skip_ws r = [] then Some v else None)"


lemma parse_unsigned_shorter: "parse_unsigned s = Some (m, k, r) \<Longrightarrow> length r < length s"
proof -
  assume a: "parse_unsigned s = Some (m, k, r)"
  then obtain n r0 where d: "parse_digits s = Some (n, r0)"
    by (auto simp: parse_unsigned_def split: option.splits)
  then have ne: "takeWhile is_digit s \<noteq> []" and r0: "r0 = dropWhile is_digit s"
    by (auto simp: parse_digits_def Let_def split: if_splits)
  have "length r0 < length s"
  proof -
    have "length (takeWhile is_digit s) + length (dropWhile is_digit s) = length s"
      by (metis length_append takeWhile_dropWhile_id)
    with ne r0 show ?thesis by (cases "takeWhile is_digit s") auto
  qed
  moreover from a d obtain f where "parse_fraction r0 = Some (f, k, r)"
    by (auto simp: parse_unsigned_def split: option.splits if_splits)
  then have "length r \<le> length r0"
    by (auto simp: parse_fraction_def Let_def split: list.splits if_splits
        intro: le_trans[OF length_dropWhile_le])
  ultimately show ?thesis by simp
qed

lemma parse_number_shorter: "parse_number s = Some (v, r) \<Longrightarrow> length r < length s"
  by (auto simp: parse_number_def split: list.splits if_splits option.splits
      dest!: parse_unsigned_shorter)

lemma parse_shorter:
  "parse_value s = Some (v, r) \<Longrightarrow> length r < length s"
  "parse_elems s1 acc1 = Some (v1, r1) \<Longrightarrow> length r1 < length s1"
  "parse_members s2 acc2 = Some (v2, r2) \<Longrightarrow> length r2 < length s2"
proof (induction s and s1 acc1 and s2 acc2 arbitrary: v r and v1 r1 and v2 r2
    rule: parse_value_parse_elems_parse_members.induct)
  case (1 s)
  from "1.prems" obtain c r0 where sk: "skip_ws s = c # r0"
    by (cases "skip_ws s") (auto simp: parse_value.simps[of s])
  have l0: "length r0 < length s" by (rule skip_ws_Cons_length[OF sk])
  note p = "1.prems"[unfolded parse_value.simps[of s] sk list.case]
  consider (str) "c = CHR 0x22"
    | (arr) "c \<noteq> CHR 0x22" "c = CHR ''[''"
    | (ob) "c \<noteq> CHR 0x22" "c \<noteq> CHR ''[''" "c = CHR ''{''"
    | (other) "c \<noteq> CHR 0x22" "c \<noteq> CHR ''[''" "c \<noteq> CHR ''{''"
    by blast
  then show ?case
  proof cases
    case str
    with p obtain t where "parse_string r0 [] = Some (t, r)"
      by (auto split: option.splits)
    from parse_string_shorter[OF this] l0 show ?thesis by simp
  next
    case arr
    with p obtain d r' where sk2: "skip_ws r0 = d # r'"
      by (cases "skip_ws r0") auto
    have l1: "length r' < length r0" by (rule skip_ws_Cons_length[OF sk2])
    show ?thesis
    proof (cases "d = CHR '']''")
      case True
      with p arr sk2 l0 l1 show ?thesis by auto
    next
      case False
      with p arr sk2 have "parse_elems (d # r') [] = Some (v, r)" by simp
      from "1.IH"(1)[OF sk arr sk2 False this] l0 l1 show ?thesis by simp
    qed
  next
    case ob
    with p obtain d r' where sk2: "skip_ws r0 = d # r'"
      by (cases "skip_ws r0") auto
    have l1: "length r' < length r0" by (rule skip_ws_Cons_length[OF sk2])
    show ?thesis
    proof (cases "d = CHR ''}''")
      case True
      with p ob sk2 l0 l1 show ?thesis by auto
    next
      case False
      with p ob sk2 have "parse_members (d # r') [] = Some (v, r)" by simp
      from "1.IH"(2)[OF sk ob sk2 False this] l0 l1 show ?thesis by simp
    qed
  next
    case other
    have "length (c # r0) \<le> length s" using l0 by simp
    moreover have "length r < length (c # r0)"
      using p other
      by (auto simp: startsWith_def split: if_splits dest!: parse_number_shorter)
    ultimately show ?thesis by simp
  qed
next
  case (2 s acc)
  from "2.prems" obtain w r0 where pv: "parse_value s = Some (w, r0)"
    by (cases "parse_value s") (auto simp: parse_elems.simps[of s])
  note p = "2.prems"[unfolded parse_elems.simps[of s] pv option.case prod.case]
  from p have g: "\<not> length s \<le> length r0" by (auto split: if_splits)
  with p obtain d r' where sk: "skip_ws r0 = d # r'"
    by (cases "skip_ws r0") auto
  have l: "length r' < length r0" by (rule skip_ws_Cons_length[OF sk])
  show ?case
  proof (cases "d = CHR '',''")
    case True
    with p g sk have "parse_elems r' (acc @ [w]) = Some (v1, r1)" by simp
    from "2.IH"(2)[OF pv refl g sk True this] l g show ?thesis by simp
  next
    case False
    with p g sk l show ?thesis by (auto split: if_splits)
  qed
next
  case (3 s acc)
  from "3.prems" obtain q r0 where sk: "skip_ws s = q # r0"
    by (cases "skip_ws s") (auto simp: parse_members.simps[of s])
  have l0: "length r0 < length s" by (rule skip_ws_Cons_length[OF sk])
  note p = "3.prems"[unfolded parse_members.simps[of s] sk list.case]
  from p have q: "\<not> q \<noteq> CHR 0x22" by (auto split: if_splits)
  with p obtain k ra where ps: "parse_string r0 [] = Some (k, ra)"
    by (cases "parse_string r0 []") auto
  have la: "length ra < length r0" by (rule parse_string_shorter[OF ps])
  from p q ps obtain c rb where sk2: "skip_ws ra = c # rb"
    by (cases "skip_ws ra") auto
  have lb: "length rb < length ra" by (rule skip_ws_Cons_length[OF sk2])
  from p q ps sk2 have c: "\<not> c \<noteq> CHR '':''" by (auto split: if_splits)
  with p q ps sk2 obtain w rc where pv: "parse_value rb = Some (w, rc)"
    by (cases "parse_value rb") auto
  from p q ps sk2 c pv have g: "\<not> length rb \<le> length rc" by (auto split: if_splits)
  with p q ps sk2 c pv obtain d rd where sk3: "skip_ws rc = d # rd"
    by (cases "skip_ws rc") auto
  have ld: "length rd < length rc" by (rule skip_ws_Cons_length[OF sk3])
  show ?case
  proof (cases "d = CHR '',''")
    case True
    with p q ps sk2 c pv g sk3 have "parse_members rd (AList.update k w acc) = Some (v2, r2)" by simp
    from "3.IH"(2)[OF sk q ps refl sk2 c pv refl g sk3 True this] l0 la lb g ld show ?thesis by simp
  next
    case False
    with p q ps sk2 c pv g sk3 l0 la lb ld show ?thesis by (auto split: if_splits)
  qed
qed

section \<open>The data model\<close>

datatype node_status = Idle | Configuring | Configured | Generating

datatype category = Input | Processing | AI | Output

record InternalWorkflowNode =
  nodeId :: json
  name :: json
  description :: json
  status :: "node_status option"
  params :: jsval
  loop_text :: jsval
  category :: "category option"
  icon :: "string option"
  inputs :: "obj option"
  outputs :: "(string \<times> string) list option"
  isMock :: "bool option"
  isArchitecturePlanner :: "bool option"

record InternalConnection =
  source :: jsval
  target :: jsval
  edge_id :: "string option"

record InternalDatabaseInfo =
  db_name :: jsval
  db_link :: jsval

datatype message_type = StepMsg | ErrorMsg | SystemMsg | AssistantMsg

record ChatMessage =
  msg_id :: string
  msg_type :: message_type
  content :: jsval
  timestamp :: nat
  msg_step :: jsval

text \<open>
  \<open>currentStep\<close> starts as \<open>null\<close> and then holds whatever the event carried as its step.
  \<open>databases\<close> is the property the reducer writes for a finished database step (absent
  until then; \<open>Some None\<close> is \<open>null\<close>). The optional \<open>errorMessage\<close>, \<open>databaseInfo\<close> and
  \<open>status\<close> of the interface are never assigned.
\<close>

record GenerationState =
  currentStep :: jsval
  isComplete :: bool
  hasError :: bool
  chatMessages :: "ChatMessage list"
  nodes :: "InternalWorkflowNode list"
  connections :: "InternalConnection list"
  mockNodes :: "InternalWorkflowNode list"
  hasMockNodes :: bool
  showCanvas :: bool
  isCollapsed :: bool
  generationId :: "string option"
  databases :: "InternalDatabaseInfo option option"

type_synonym event = obj

section \<open>The transformers\<close>

definition isSSEStepEvent :: "event \<Rightarrow> bool" where
  "isSSEStepEvent ev = (map_of ev ''step'' \<noteq> None \<and> map_of ev ''status'' \<noteq> None)"

definition isSSESystemEvent :: "event \<Rightarrow> bool" where
  "isSSESystemEvent ev = (map_of ev ''type'' \<noteq> None \<and> \<not> map_of ev ''step'' \<noteq> None)"

definition call_toLowerCase :: "jsval \<Rightarrow> error + string" where
  "call_toLowerCase v = (case v of Some (JStr s) \<Rightarrow> Inr (toLowerCase s) | _ \<Rightarrow> Inl TypeError)"

definition inferNodeCategory :: "jsval \<Rightarrow> jsval \<Rightarrow> category" where
  "inferNodeCategory nm desc =
     (let text = toLowerCase (js_str nm @ '' '' @ js_str desc)
      in if str_includes text ''input'' \<or> str_includes text ''form'' \<or> str_includes text ''enters''
         then Input
         else if str_includes text ''ai'' \<or> str_includes text ''gpt'' \<or> str_includes text ''model''
                 \<or> str_includes text ''reasoning''
         then AI
         else if str_includes text ''output'' \<or> str_includes text ''save'' \<or> str_includes text ''insert''
                 \<or> str_includes text ''store'' \<or> str_includes text ''send'' \<or> str_includes text ''email''
                 \<or> str_includes text ''slack''
         then Output
         else Processing)"

definition inferNodeIcon :: "jsval \<Rightarrow> jsval \<Rightarrow> string" where
  "inferNodeIcon nm desc =
     (let text = toLowerCase (js_str nm @ '' '' @ js_str desc)
      in if str_includes text ''user'' \<or> str_includes text ''input'' \<or> str_includes text ''form''
         then ''user''
         else if str_includes text ''ai'' \<or> str_includes text ''reasoning'' \<or> str_includes text ''gpt''
         then ''brain''
         else if str_includes text ''database'' \<or> str_includes text ''save'' \<or> str_includes text ''store''
         then ''database''
         else if str_includes text ''email'' \<or> str_includes text ''mail'' then ''mail''
         else if str_includes text ''search'' \<or> str_includes text ''find'' then ''search''
         else if str_includes text ''api'' \<or> str_includes text ''web'' then ''web''
         else if str_includes text ''document'' \<or> str_includes text ''file'' then ''document''
         else ''settings'')"

definition generateMockInputs :: "jsval \<Rightarrow> error + obj" where
  "generateMockInputs nm =
     bindE (call_toLowerCase nm) (\<lambda>text.
       if str_includes text ''user'' \<or> str_includes text ''input'' then
         Inr [(''firstName'', JStr ''{{user.firstName}}''),
              (''lastName'', JStr ''{{user.lastName}}''),
              (''email'', JStr ''{{user.email}}'')]
       else if str_includes text ''ai'' \<or> str_includes text ''reasoning'' then
         Inr [(''prompt'', JStr ''Analyze the data: {{input.data}}''),
              (''model'', JStr ''gpt-4''),
              (''temperature'', JNum 7 1)]
       else Inr [])"

definition generateMockOutputs :: "jsval \<Rightarrow> error + (string \<times> string) list" where
  "generateMockOutputs nm =
     bindE (call_toLowerCase nm) (\<lambda>text.
       if str_includes text ''user'' \<or> str_includes text ''input'' then
         Inr [(''userData'', ''Object''), (''isValid'', ''Boolean'')]
       else if str_includes text ''ai'' \<or> str_includes text ''reasoning'' then
         Inr [(''analysis'', ''String''), (''confidence'', ''Number'')]
       else Inr [(''result'', ''Object''), (''success'', ''Boolean'')])"

text \<open>\<open>replace(/[^a-z0-9]/g, '_')\<close>\<close>

definition slug :: "string \<Rightarrow> string" where
  "slug s = map (\<lambda>c. if c \<in> set ''abcdefghijklmnopqrstuvwxyz0123456789'' then c else CHR ''_'') s"

text \<open>
  The two placeholder builders differ in the prefix of the id, the description, the status
  and the flag they set. \<open>now\<close> is the reading of \<open>Date.now()\<close>.
\<close>

definition planner_node :: "nat \<Rightarrow> nat \<times> json \<Rightarrow> error + InternalWorkflowNode" where
  "planner_node now p =
     (case p of (index, nodeName) \<Rightarrow>
        bindE (call_toLowerCase (Some nodeName)) (\<lambda>lower.
        bindE (generateMockInputs (Some nodeName)) (\<lambda>ins.
        bindE (generateMockOutputs (Some nodeName)) (\<lambda>outs.
          Inr \<lparr> nodeId = JStr (''node_'' @ slug lower @ ''_'' @ show_nat now @ ''_'' @ show_nat index),
                name = nodeName,
                description = JStr (to_string nodeName @ '' node - finalizing nodes...''),
                status = Some Idle,
                params = None,
                loop_text = None,
                category = Some (inferNodeCategory (Some nodeName) (Some nodeName)),
                icon = Some (inferNodeIcon (Some nodeName) (Some nodeName)),
                inputs = Some ins,
                outputs = Some outs,
                isMock = None,
                isArchitecturePlanner = Some True \<rparr>))))"

definition transformArchitecturePlannerNodes :: "nat \<Rightarrow> jsval \<Rightarrow> error + InternalWorkflowNode list" where
  "transformArchitecturePlannerNodes now data =
     bindE (get data ''summary'') (\<lambda>summary.
       case summary of
         Some (JStr s) \<Rightarrow> Inr []
       | Some (JArr xs) \<Rightarrow> mapE (planner_node now) (enumerate 0 xs)
       | _ \<Rightarrow> Inl TypeError)"

definition mock_node :: "nat \<Rightarrow> nat \<times> json \<Rightarrow> error + InternalWorkflowNode" where
  "mock_node now p =
     (case p of (index, nodeName) \<Rightarrow>
        bindE (call_toLowerCase (Some nodeName)) (\<lambda>lower.
        bindE (generateMockInputs (Some nodeName)) (\<lambda>ins.
        bindE (generateMockOutputs (Some nodeName)) (\<lambda>outs.
          Inr \<lparr> nodeId = JStr (''mock_'' @ slug lower @ ''_'' @ show_nat now @ ''_'' @ show_nat index),
                name = nodeName,
                description = JStr (to_string nodeName @ '' - generating details...''),
                status = Some Generating,
                params = None,
                loop_text = None,
                category = Some (inferNodeCategory (Some nodeName) (Some nodeName)),
                icon = Some (inferNodeIcon (Some nodeName) (Some nodeName)),
                inputs = Some ins,
                outputs = Some outs,
                isMock = Some True,
                isArchitecturePlanner = None \<rparr>))))"

definition transformMockNodes :: "nat \<Rightarrow> json list \<Rightarrow> error + InternalWorkflowNode list" where
  "transformMockNodes now nodeNames = mapE (mock_node now) (enumerate 0 nodeNames)"

definition selector_node :: "json \<Rightarrow> error + InternalWorkflowNode option" where
  "selector_node node =
     (if \<not> truthy (Some node) then Inr None
      else
        (case get_prop node ''nodeId'' of
           None \<Rightarrow> Inr None
         | Some nid \<Rightarrow>
             if \<not> truthy (Some nid) then Inr None
             else
               bindE (generateMockInputs (get_prop node ''name'')) (\<lambda>ins.
               bindE (generateMockOutputs (get_prop node ''name'')) (\<lambda>outs.
                 Inr (Some \<lparr> nodeId = nid,
                             name = js_or_val (get_prop node ''name'') (JStr ''Unnamed Node''),
                             description = js_or_val (get_prop node ''description'') (JStr ''No description''),
                             status = Some Idle,
                             params = None,
                             loop_text = None,
                             category = Some (inferNodeCategory (get_prop node ''name'')
                                                (get_prop node ''description'')),
                             icon = Some (inferNodeIcon (get_prop node ''name'') (get_prop node ''description'')),
                             inputs = Some ins,
                             outputs = Some outs,
                             isMock = None,
                             isArchitecturePlanner = None \<rparr>)))))"

definition transformNodes :: "jsval \<Rightarrow> error + InternalWorkflowNode list" where
  "transformNodes data =
     (if \<not> truthy data \<or> \<not> truthy (opt_get data ''nodes'') \<or> \<not> is_array (opt_get data ''nodes'')
      then Inr []
      else
        (case opt_get data ''nodes'' of
           Some (JArr xs) \<Rightarrow> bindE (mapE selector_node xs) (\<lambda>rs. Inr (List.map_filter (\<lambda>r. r) rs))
         | _ \<Rightarrow> Inr []))"

definition transformConnection :: "nat \<times> json \<Rightarrow> error + InternalConnection" where
  "transformConnection p =
     (case p of (index, conn) \<Rightarrow>
        bindE (get (Some conn) ''source'') (\<lambda>src.
        bindE (get (Some conn) ''target'') (\<lambda>tgt.
          Inr \<lparr> source = src, target = tgt,
                edge_id = Some (''edge_'' @ js_str src @ ''_'' @ js_str tgt @ ''_'' @ show_nat index) \<rparr>)))"

definition transformConnections :: "jsval \<Rightarrow> error + InternalConnection list" where
  "transformConnections data =
     bindE (get data ''connections'') (\<lambda>cs.
       case cs of
         Some (JArr xs) \<Rightarrow> mapE transformConnection (enumerate 0 xs)
       | _ \<Rightarrow> Inl TypeError)"

text \<open>\<open>x.length === 0\<close> and \<open>x[0]\<close> for a value that is neither \<open>undefined\<close> nor \<open>null\<close>.\<close>

fun length_is_zero :: "json \<Rightarrow> bool" where
  "length_is_zero (JArr xs) = (xs = [])"
| "length_is_zero (JStr s) = (s = [])"
| "length_is_zero (JObj fs) = (map_of fs ''length'' = Some (JNum 0 0))"
| "length_is_zero v = False"

fun index0 :: "json \<Rightarrow> jsval" where
  "index0 (JArr xs) = (case xs of [] \<Rightarrow> None | x # rest \<Rightarrow> Some x)"
| "index0 (JStr s) = (case s of [] \<Rightarrow> None | c # rest \<Rightarrow> Some (JStr [c]))"
| "index0 (JObj fs) = map_of fs ''0''"
| "index0 v = None"

definition transformDatabaseInfo :: "jsval \<Rightarrow> error + InternalDatabaseInfo option" where
  "transformDatabaseInfo data =
     bindE (get data ''databases'') (\<lambda>dbs.
       case dbs of
         None \<Rightarrow> Inr None
       | Some d \<Rightarrow>
           if \<not> truthy dbs \<or> length_is_zero d then Inr None
           else
             bindE (get (index0 d) ''name'') (\<lambda>n.
             bindE (get (index0 d) ''link'') (\<lambda>l.
               Inr (Some \<lparr> db_name = n, db_link = l \<rparr>))))"

section \<open>Recovery of misrouted node records\<close>

definition quotes :: "char list" where
  "quotes = [CHR 0x27, CHR 0x22]"

text \<open>\<open>/key=['"]([^'"]+)['"]/\<close> for the keys \<open>id\<close>, \<open>name\<close>, \<open>type\<close> and \<open>param_name\<close>.\<close>

definition rx_field :: "string \<Rightarrow> rx list" where
  "rx_field key =
     map Lit (key @ ''='') @ [Cls (OneOf quotes), Open, Rep True 1 (NoneOf quotes), Close, Cls (OneOf quotes)]"

text \<open>\<open>/params=\[(.*?)\]/\<close>\<close>

definition rx_params :: "rx list" where
  "rx_params = map Lit ''params=['' @ [Open, Rep False 0 Dot, Close, Lit (CHR '']'')]"

text \<open>\<open>/NodeParams\(param_name=['"]([^'"]+)['"], param_value=([^)]+)\)/g\<close>\<close>

definition rx_node_params :: "rx list" where
  "rx_node_params =
     map Lit ''NodeParams(param_name='' @
     [Cls (OneOf quotes), Open, Rep True 1 (NoneOf quotes), Close, Cls (OneOf quotes)] @
     map Lit '', param_value='' @ [Open, Rep True 1 (NoneOf '')''), Close, Lit (CHR '')'')]"

text \<open>\<open>/param_value=(.+)/\<close>\<close>

definition rx_param_value :: "rx list" where
  "rx_param_value = map Lit ''param_value='' @ [Open, Rep True 1 Dot, Close]"

text \<open>\<open>/\)$/\<close>\<close>

definition rx_closing :: "rx list" where
  "rx_closing = [Lit (CHR '')''), Eos]"

text \<open>\<open>/loop_over=([^,\]]+)/\<close>\<close>

definition rx_loop_over :: "rx list" where
  "rx_loop_over = map Lit ''loop_over='' @ [Open, Rep True 1 (NoneOf '',]''), Close]"

definition clean_param_value :: "string \<Rightarrow> json" where
  "clean_param_value v =
     (if startsWith v [CHR 0x27] \<and> endsWith v [CHR 0x27] then JStr (butlast (tl v))
      else if startsWith v ''['' \<and> endsWith v '']'' then
        (case JSON_parse (map (\<lambda>c. if c = CHR 0x27 then CHR 0x22 else c) v) of
           None \<Rightarrow> JStr v
         | Some j \<Rightarrow> j)
      else JStr v)"

definition add_param :: "string \<Rightarrow> obj \<Rightarrow> obj" where
  "add_param paramMatch ps =
     (case (str_match (rx_field ''param_name'') paramMatch, str_match rx_param_value paramMatch) of
        (Some paramNameMatch, Some paramValueMatch) \<Rightarrow>
          AList.update (group1 paramNameMatch)
            (clean_param_value (str_replace rx_closing (\<lambda>caps. []) (group1 paramValueMatch))) ps
      | _ \<Rightarrow> ps)"

definition parse_params :: "string \<Rightarrow> obj" where
  "parse_params nodeStr =
     (case str_match rx_params nodeStr of
        None \<Rightarrow> []
      | Some paramsMatch \<Rightarrow>
          (case str_match_all rx_node_params (group1 paramsMatch) of
             None \<Rightarrow> []
           | Some paramMatches \<Rightarrow> fold add_param paramMatches []))"

definition parse_loop_text :: "string \<Rightarrow> json" where
  "parse_loop_text nodeStr =
     (case str_match rx_loop_over nodeStr of
        None \<Rightarrow> JNull
      | Some loopMatch \<Rightarrow>
          if group1 loopMatch \<noteq> ''None'' then JStr (filter (\<lambda>c. c \<notin> set quotes) (group1 loopMatch))
          else JNull)"

text \<open>
  A record that is not a string has no \<open>match\<close> method: the call throws inside the
  function's own \<open>try\<close>, which returns \<open>null\<close>.
\<close>

definition parseNodeString :: "json \<Rightarrow> InternalWorkflowNode option" where
  "parseNodeString nodeStr =
     (case nodeStr of
        JStr s \<Rightarrow>
          (case (str_match (rx_field ''id'') s, str_match (rx_field ''name'') s, str_match (rx_field ''type'') s) of
             (Some idMatch, Some nameMatch, Some typeMatch) \<Rightarrow>
               Some \<lparr> nodeId = JStr (group1 idMatch),
                      name = JStr (group1 nameMatch),
                      description = JStr (group1 typeMatch @ '' node''),
                      status = Some Configured,
                      params = Some (JObj (parse_params s)),
                      loop_text = Some (parse_loop_text s),
                      category = Some (inferNodeCategory (Some (JStr (group1 nameMatch)))
                                         (Some (JStr (group1 typeMatch)))),
                      icon = Some (inferNodeIcon (Some (JStr (group1 nameMatch))) (Some (JStr (group1 typeMatch)))),
                      inputs = Some (parse_params s),
                      outputs = (case generateMockOutputs (Some (JStr (group1 nameMatch))) of
                                   Inl e \<Rightarrow> None | Inr outs \<Rightarrow> Some outs),
                      isMock = None,
                      isArchitecturePlanner = None \<rparr>
           | _ \<Rightarrow> None)
      | _ \<Rightarrow> None)"

text \<open>
  The normal update of one node: \<open>{...node.inputs, ...data.params}\<close> copies the own
  properties of both.
\<close>

definition configure :: "jsval \<Rightarrow> InternalWorkflowNode \<Rightarrow> InternalWorkflowNode" where
  "configure data node =
     (if strict_eq (Some (nodeId node)) (opt_get data ''nodeId'') then
        node \<lparr> name := js_or_val (opt_get data ''name'') (name node),
               description := js_or_val (opt_get data ''description'') (description node),
               params := Some (js_or_val (opt_get data ''params'') (JObj [])),
               loop_text := opt_get data ''loop_text'',
               status := Some Configured,
               inputs := Some (assign (case inputs node of None \<Rightarrow> [] | Some i \<Rightarrow> i)
                                 (entries (opt_get data ''params''))) \<rparr>
      else node)"

definition extract_nodes :: "jsval \<Rightarrow> InternalWorkflowNode list" where
  "extract_nodes nm =
     (case nm of
        Some (JStr s) \<Rightarrow>
          (case JSON_parse s of
             Some (JArr nodeStrings) \<Rightarrow> List.map_filter parseNodeString nodeStrings
           | _ \<Rightarrow> [])
      | _ \<Rightarrow> [])"

definition corrupted :: "jsval \<Rightarrow> bool" where
  "corrupted data =
     (is_str (opt_get data ''nodeId'') ''unknown'' \<and>
      (case opt_get data ''name'' of Some (JStr s) \<Rightarrow> startsWith s ''['' | _ \<Rightarrow> False))"

definition updateNodeConfiguration ::
  "InternalWorkflowNode list \<Rightarrow> jsval \<Rightarrow> error + InternalWorkflowNode list" where
  "updateNodeConfiguration ns data =
     bindE (get data ''nodeId'') (\<lambda>nid.
       if corrupted data \<and> extract_nodes (opt_get data ''name'') \<noteq> []
       then Inr (extract_nodes (opt_get data ''name''))
       else Inr (map (configure data) ns))"

definition updateNodeStatus ::
  "InternalWorkflowNode list \<Rightarrow> jsval \<Rightarrow> node_status \<Rightarrow> InternalWorkflowNode list" where
  "updateNodeStatus ns nid st =
     map (\<lambda>node. if strict_eq (Some (nodeId node)) nid then node \<lparr> status := Some st \<rparr> else node) ns"

text \<open>\<open>/\{\{\$([^.}]+)[^}]*\}\}/g\<close> and \<open>/\{\{\$([^.}]+)/\<close>\<close>

definition rx_reference :: "rx list" where
  "rx_reference =
     map Lit ''{{$'' @ [Open, Rep True 1 (NoneOf ''.}''), Close, Rep True 0 (NoneOf ''}''),
                        Lit (CHR ''}''), Lit (CHR ''}'')]"

definition rx_reference_id :: "rx list" where
  "rx_reference_id = map Lit ''{{$'' @ [Open, Rep True 1 (NoneOf ''.}''), Close]"

type_synonym extraction = "InternalConnection list \<times> string list"

definition add_reference ::
  "InternalWorkflowNode list \<Rightarrow> InternalWorkflowNode \<Rightarrow> string \<Rightarrow> extraction \<Rightarrow> extraction" where
  "add_reference ns node m acc =
     (case acc of (conns, connectionSet) \<Rightarrow>
        (case str_match rx_reference_id m of
           None \<Rightarrow> acc
         | Some nodeIdMatch \<Rightarrow>
             (let sourceNodeId = group1 nodeIdMatch in
              if list_ex (\<lambda>n. strict_eq (Some (nodeId n)) (Some (JStr sourceNodeId))) ns
                 \<and> \<not> strict_eq (Some (JStr sourceNodeId)) (Some (nodeId node))
              then
                (let connectionId = sourceNodeId @ ''_to_'' @ to_string (nodeId node) in
                 if connectionId \<notin> set connectionSet then
                   (conns @ [\<lparr> source = Some (JStr sourceNodeId),
                               target = Some (nodeId node),
                               edge_id = Some (''edge_'' @ sourceNodeId @ ''_'' @ to_string (nodeId node)) \<rparr>],
                    connectionSet @ [connectionId])
                 else acc)
              else acc)))"

definition scan_param ::
  "InternalWorkflowNode list \<Rightarrow> InternalWorkflowNode \<Rightarrow> string \<times> json \<Rightarrow> extraction \<Rightarrow> extraction" where
  "scan_param ns node entry acc =
     (case snd entry of
        JStr paramValue \<Rightarrow>
          (case str_match_all rx_reference paramValue of
             None \<Rightarrow> acc
           | Some variableMatches \<Rightarrow> fold (add_reference ns node) variableMatches acc)
      | _ \<Rightarrow> acc)"

definition scan_node :: "InternalWorkflowNode list \<Rightarrow> InternalWorkflowNode \<Rightarrow> extraction \<Rightarrow> extraction" where
  "scan_node ns node acc =
     (if truthy (params node) then fold (scan_param ns node) (entries (params node)) acc else acc)"

definition extractConnectionsFromNodes :: "InternalWorkflowNode list \<Rightarrow> InternalConnection list" where
  "extractConnectionsFromNodes ns = fst (fold (scan_node ns) ns ([], []))"

section \<open>The event normalizer\<close>

definition sanitizeEventData :: "event \<Rightarrow> event" where
  "sanitizeEventData ev =
     (if \<not> isSSEStepEvent ev then ev
      else if \<not> truthy (map_of ev ''data'') \<or> \<not> typeof_object (map_of ev ''data'')
      then AList.update ''data'' (JObj []) ev
      else if is_str (map_of ev ''step'') ''node_selector'' then
        (if \<not> is_array (opt_get (map_of ev ''data'') ''nodes'')
         then AList.update ''data'' (JObj [(''nodes'', JArr [])]) ev else ev)
      else if is_str (map_of ev ''step'') ''connection_builder'' then
        (if \<not> is_array (opt_get (map_of ev ''data'') ''connections'')
         then AList.update ''data'' (JObj [(''connections'', JArr [])]) ev else ev)
      else if is_str (map_of ev ''step'') ''database_setup'' then
        (if \<not> is_array (opt_get (map_of ev ''data'') ''databases'')
         then AList.update ''data'' (JObj [(''databases'', JArr [])]) ev else ev)
      else ev)"


section \<open>The generation state reducer\<close>

definition createInitialState :: "string option \<Rightarrow> GenerationState" where
  "createInitialState gid =
     \<lparr> currentStep = Some JNull, isComplete = False, hasError = False, chatMessages = [],
       nodes = [], connections = [], mockNodes = [], hasMockNodes = False,
       showCanvas = False, isCollapsed = False, generationId = gid, databases = None \<rparr>"

text \<open>
  The state updater of \<open>handleSSEMessage\<close>, on the sanitized event. \<open>now\<close> is the clock
  reading used for message ids and timestamps. A \<open>TypeError\<close> thrown while the updater
  runs is the result \<open>Inl TypeError\<close>. For a step event the updater is a sequence of guarded
  blocks that assign to the copy of the state; each block is a function here, from
  \<open>prompt_phase\<close> to \<open>error_phase\<close>, and \<open>step_event\<close> runs them in the order of the source.
\<close>

definition system_event :: "nat \<Rightarrow> GenerationState \<Rightarrow> event \<Rightarrow> GenerationState" where
  "system_event now s ev =
     (if is_str (map_of ev ''type'') ''connected'' then s \<lparr> currentStep := Some (JStr ''connected'') \<rparr>
      else if is_str (map_of ev ''type'') ''status'' then
        (if is_str (map_of ev ''status'') ''COMPLETED'' then
           s \<lparr> isComplete := True,
               currentStep := Some (JStr ''completed''),
               chatMessages := chatMessages s @
                 [\<lparr> msg_id = ''msg_'' @ show_nat now @ ''_completed'', msg_type = AssistantMsg,
                    content = Some (JStr ''Agent generation complete!''), timestamp = now,
                    msg_step = Some (JStr ''completed'') \<rparr>] \<rparr>
         else if is_str (map_of ev ''status'') ''ERROR'' then
           s \<lparr> hasError := True,
               currentStep := Some (JStr ''error''),
               chatMessages := chatMessages s @
                 [\<lparr> msg_id = ''msg_'' @ show_nat now @ ''_error'', msg_type = ErrorMsg,
                    content = Some (JStr ''An error occurred during generation''), timestamp = now,
                    msg_step = Some (JStr ''error'') \<rparr>] \<rparr>
         else s)
      else s)"

definition prompt_phase :: "nat \<Rightarrow> jsval \<Rightarrow> jsval \<Rightarrow> jsval \<Rightarrow> GenerationState \<Rightarrow> GenerationState" where
  "prompt_phase now step st data s =
     (if is_str step ''architecture_planner'' \<and> is_str st ''started'' \<and> truthy (opt_get data ''summary'')
      then s \<lparr> chatMessages := chatMessages s @
                 [\<lparr> msg_id = ''msg_'' @ show_nat now @ ''_prompt'', msg_type = SystemMsg,
                    content = opt_get data ''summary'', timestamp = now,
                    msg_step = Some (JStr ''architecture_planner'') \<rparr>] \<rparr>
      else s)"

definition planner_phase ::
  "nat \<Rightarrow> jsval \<Rightarrow> jsval \<Rightarrow> jsval \<Rightarrow> GenerationState \<Rightarrow> error + GenerationState" where
  "planner_phase now step st data s =
     (if is_str step ''architecture_planner'' \<and> is_str st ''done'' \<and> truthy (opt_get data ''summary'')
      then
        (let mockNodeNames = (case opt_get data ''summary'' of Some (JArr xs) \<Rightarrow> xs | _ \<Rightarrow> [])
         in bindE (transformArchitecturePlannerNodes now (Some (JObj [(''summary'', JArr mockNodeNames)])))
              (\<lambda>mock. Inr (s \<lparr> mockNodes := mock, hasMockNodes := (length mock > 0),
                               showCanvas := True \<rparr>)))
      else Inr s)"

definition selector_phase :: "jsval \<Rightarrow> jsval \<Rightarrow> jsval \<Rightarrow> GenerationState \<Rightarrow> error + GenerationState" where
  "selector_phase step st data s =
     (if is_str step ''node_selector'' \<and> is_str st ''done'' \<and> truthy (opt_get data ''nodes'')
      then bindE (transformNodes data)
             (\<lambda>transformedNodes. Inr (s \<lparr> nodes := transformedNodes, hasMockNodes := False,
                                            mockNodes := [] \<rparr>))
      else Inr s)"

definition connection_phase :: "jsval \<Rightarrow> jsval \<Rightarrow> jsval \<Rightarrow> GenerationState \<Rightarrow> error + GenerationState" where
  "connection_phase step st data s =
     (if is_str step ''connection_builder'' \<and> is_str st ''done''
      then bindE (transformConnections data)
             (\<lambda>transformedConnections. Inr (s \<lparr> connections := transformedConnections \<rparr>))
      else Inr s)"

definition configurator_phase ::
  "jsval \<Rightarrow> jsval \<Rightarrow> jsval \<Rightarrow> GenerationState \<Rightarrow> error + GenerationState" where
  "configurator_phase step st data s =
     (if is_str step ''node_configurator'' then
        (if is_str st ''started'' \<and> truthy (opt_get data ''nodeId'') then
           Inr (s \<lparr> nodes := updateNodeStatus (nodes s) (opt_get data ''nodeId'') Configuring \<rparr>)
         else if is_str st ''done'' then
           bindE (updateNodeConfiguration (nodes s) data) (\<lambda>updatedNodes.
             if length updatedNodes > length (nodes s) then
               Inr (s \<lparr> nodes := updatedNodes,
                       connections := extractConnectionsFromNodes updatedNodes,
                       showCanvas := True \<rparr>)
             else Inr (s \<lparr> nodes := updatedNodes \<rparr>))
         else Inr s)
      else Inr s)"

definition database_phase :: "jsval \<Rightarrow> jsval \<Rightarrow> jsval \<Rightarrow> GenerationState \<Rightarrow> error + GenerationState" where
  "database_phase step st data s =
     (if is_str step ''database_setup'' \<and> is_str st ''done'' \<and> truthy (opt_get data ''databases'')
      then bindE (transformDatabaseInfo (opt_get data ''databases''))
             (\<lambda>dbs. Inr (s \<lparr> databases := Some dbs \<rparr>))
      else Inr s)"

definition error_phase :: "nat \<Rightarrow> jsval \<Rightarrow> jsval \<Rightarrow> jsval \<Rightarrow> GenerationState \<Rightarrow> GenerationState" where
  "error_phase now step st data s =
     (if is_str st ''error'' then
        s \<lparr> hasError := True,
            chatMessages := chatMessages s @
              [\<lparr> msg_id = ''msg_'' @ show_nat now @ ''_step_error'', msg_type = ErrorMsg,
                 content = js_or (opt_get data ''message'') (Some (JStr (''Error in '' @ js_str step))),
                 timestamp = now, msg_step = step \<rparr>] \<rparr>
      else s)"

definition step_event :: "nat \<Rightarrow> GenerationState \<Rightarrow> event \<Rightarrow> error + GenerationState" where
  "step_event now s ev =
     (let step = map_of ev ''step''; st = map_of ev ''status''; data = map_of ev ''data'' in
      bindE (planner_phase now step st data (prompt_phase now step st data (s \<lparr> currentStep := step \<rparr>)))
        (\<lambda>s1. bindE (selector_phase step st data s1)
        (\<lambda>s2. bindE (connection_phase step st data s2)
        (\<lambda>s3. bindE (configurator_phase step st data s3)
        (\<lambda>s4. bindE (database_phase step st data s4)
        (\<lambda>s5. Inr (error_phase now step st data s5)))))))"

definition reduce :: "nat \<Rightarrow> GenerationState \<Rightarrow> event \<Rightarrow> error + GenerationState" where
  "reduce now s ev =
     (if isSSESystemEvent ev then Inr (system_event now s ev)
      else if isSSEStepEvent ev then step_event now s ev
      else Inr s)"

text \<open>
  The hook owns the state, the set of event keys already seen and the two debug counters.
  \<open>arrival\<close> is the clock reading taken when the event arrives; it is part of the key.
\<close>

record Hook =
  state :: GenerationState
  processedEventIds :: "string list"
  received :: nat
  processed :: nat

definition eventId :: "event \<Rightarrow> nat \<Rightarrow> string" where
  "eventId ev arrival = js_str (js_or (map_of ev ''step'') (map_of ev ''type'')) @ ''_'' @ show_nat arrival"

definition handleSSEMessage :: "nat \<Rightarrow> nat \<Rightarrow> Hook \<Rightarrow> event \<Rightarrow> error + Hook" where
  "handleSSEMessage arrival now h ev =
     (if eventId ev arrival \<in> set (processedEventIds h) then Inr h
      else
        bindE (reduce now (state h) (sanitizeEventData ev)) (\<lambda>s'.
          Inr (h \<lparr> state := s',
                  processedEventIds := eventId ev arrival # processedEventIds h,
                  received := received h + 1,
                  processed := (if isSSESystemEvent (sanitizeEventData ev) then processed h
                                else processed h + 1) \<rparr>)))"

definition reset :: "string option \<Rightarrow> Hook \<Rightarrow> Hook" where
  "reset gid h =
     \<lparr> state = createInitialState gid, processedEventIds = [], received = 0, processed = 0 \<rparr>"

definition toggleChat :: "GenerationState \<Rightarrow> GenerationState" where
  "toggleChat s = s \<lparr> isCollapsed := \<not> isCollapsed s \<rparr>"

definition setMockNodes :: "nat \<Rightarrow> json list \<Rightarrow> GenerationState \<Rightarrow> error + GenerationState" where
  "setMockNodes now nodeNames s =
     bindE (transformMockNodes now nodeNames) (\<lambda>mock.
       Inr (s \<lparr> mockNodes := mock, hasMockNodes := (length mock > 0), showCanvas := (length mock > 0) \<rparr>))"


section \<open>The projector and the reveal coordinator\<close>

record FlowNode =
  flow_id :: json
  flow_type :: string
  position :: "nat \<times> nat"
  data_nodeId :: json
  data_name :: json
  data_nodeType :: string
  data_description :: json
  data_status :: node_status
  data_params :: jsval
  data_loop_text :: "string option"
  data_category :: "category option"
  data_outputs :: "(string \<times> string) list"
  data_isMock :: "bool option"
  data_isArchitecturePlanner :: "bool option"
  draggable :: bool

record FlowEdge =
  fe_id :: string
  fe_source :: jsval
  fe_target :: jsval
  fe_type :: string
  animated :: bool
  strokeWidth :: nat

text \<open>\<open>/^\{\{\$(.+)\}\}$/\<close>\<close>

definition rx_loop_reference :: "rx list" where
  "rx_loop_reference =
     [Bos] @ map Lit ''{{$'' @ [Open, Rep True 1 Dot, Close, Lit (CHR ''}''), Lit (CHR ''}''), Eos]"

definition nodeType_of :: "InternalWorkflowNode \<Rightarrow> error + string" where
  "nodeType_of node =
     (if isMock node = Some True then Inr ''node''
      else (case nodeId node of
              JStr s \<Rightarrow> Inr (takeWhile (\<lambda>c. c \<noteq> CHR ''_'') s)
            | _ \<Rightarrow> Inl TypeError))"

definition loop_text_of :: "InternalWorkflowNode \<Rightarrow> error + string option" where
  "loop_text_of node =
     (case loop_text node of
        None \<Rightarrow> Inr None
      | Some JNull \<Rightarrow> Inr None
      | Some (JStr s) \<Rightarrow> Inr (Some (str_replace rx_loop_reference (\<lambda>caps. concat (take 1 caps)) s))
      | Some v \<Rightarrow> Inl TypeError)"

definition convertToFlowNode :: "InternalWorkflowNode \<Rightarrow> nat \<Rightarrow> nat \<Rightarrow> error + FlowNode" where
  "convertToFlowNode node index totalNodes =
     bindE (nodeType_of node) (\<lambda>ty.
     bindE (loop_text_of node) (\<lambda>lt.
       Inr \<lparr> flow_id = nodeId node,
             flow_type = ''workflowGeneration'',
             position = (100 + index * 350, 200),
             data_nodeId = nodeId node,
             data_name = name node,
             data_nodeType = ty,
             data_description = description node,
             data_status = (case status node of None \<Rightarrow> Idle | Some st \<Rightarrow> st),
             data_params = params node,
             data_loop_text = lt,
             data_category = category node,
             data_outputs = (case outputs node of None \<Rightarrow> [] | Some os \<Rightarrow> os),
             data_isMock = isMock node,
             data_isArchitecturePlanner = isArchitecturePlanner node,
             draggable = False \<rparr>))"

definition convertToFlowEdge :: "InternalConnection \<Rightarrow> nat \<Rightarrow> FlowEdge" where
  "convertToFlowEdge connection index =
     \<lparr> fe_id = (case edge_id connection of
                  None \<Rightarrow> ''edge-'' @ js_str (source connection) @ ''-'' @ js_str (target connection)
                | Some i \<Rightarrow> if i \<noteq> [] then i
                            else ''edge-'' @ js_str (source connection) @ ''-'' @ js_str (target connection)),
       fe_source = source connection,
       fe_target = target connection,
       fe_type = ''step'',
       animated = True,
       strokeWidth = 2 \<rparr>"

definition nodesToRender :: "GenerationState \<Rightarrow> InternalWorkflowNode list" where
  "nodesToRender gs = (if length (nodes gs) > 0 then nodes gs else mockNodes gs)"

definition flowNodes :: "GenerationState \<Rightarrow> error + FlowNode list" where
  "flowNodes gs =
     mapE (\<lambda>(index, node). convertToFlowNode node index (length (nodesToRender gs)))
       (enumerate 0 (nodesToRender gs))"

text \<open>
  The coordinator's state: the rendered edges, the two pieces of component state the
  effects read and write, and the invocations of \<open>processConnections\<close> that are
  suspended at an \<open>await\<close>. Each invocation keeps the connection list of the render that
  started it and the index its loop adds next. The layout passes between two edges move
  nodes only and are left out.
\<close>

record Reveal =
  captured :: "InternalConnection list"
  next_index :: nat

record Coordinator =
  edges :: "FlowEdge list"
  isProcessingConnections :: bool
  lastNodeCount :: nat
  reveals :: "Reveal list"

definition initialCoordinator :: Coordinator where
  "initialCoordinator = \<lparr> edges = [], isProcessingConnections = False, lastNodeCount = 0, reveals = [] \<rparr>"

definition nodeCountEffect :: "GenerationState \<Rightarrow> Coordinator \<Rightarrow> Coordinator" where
  "nodeCountEffect gs c =
     (let currentNodeCount = (if length (nodes gs) > 0 then length (nodes gs) else length (mockNodes gs)) in
      if currentNodeCount > lastNodeCount c \<and> currentNodeCount > 0 then
        c \<lparr> isProcessingConnections := False, edges := [], lastNodeCount := currentNodeCount \<rparr>
      else if currentNodeCount < lastNodeCount c then
        c \<lparr> isProcessingConnections := False, edges := [], lastNodeCount := currentNodeCount \<rparr>
      else if lastNodeCount c = 0 \<and> currentNodeCount > 0 then
        c \<lparr> lastNodeCount := currentNodeCount \<rparr>
      else c)"

text \<open>
  The connections effect starts \<open>processConnections\<close>, which runs up to its first \<open>await\<close>:
  it has added the edge of index 0 when it suspends.
\<close>

definition connectionsEffect :: "GenerationState \<Rightarrow> Coordinator \<Rightarrow> Coordinator" where
  "connectionsEffect gs c =
     (case connections gs of
        [] \<Rightarrow> c
      | connection # rest \<Rightarrow>
          if \<not> isProcessingConnections c \<and> length (edges c) = 0 then
            c \<lparr> isProcessingConnections := True,
                edges := edges c @ [convertToFlowEdge connection 0],
                reveals := reveals c @ [\<lparr> captured = connections gs, next_index = 1 \<rparr>] \<rparr>
          else c)"

text \<open>
  A suspended invocation wakes up: its loop adds the next edge of the list it captured and
  suspends again, or, past the last index, clears the flag and ends.
\<close>

definition resume :: "nat \<Rightarrow> Coordinator \<Rightarrow> Coordinator" where
  "resume k c =
     (if k < length (reveals c) then
        (let r = reveals c ! k; i = next_index r in
         if i < length (captured r) then
           c \<lparr> edges := edges c @ [convertToFlowEdge (captured r ! i) i],
               reveals := (reveals c)[k := r \<lparr> next_index := i + 1 \<rparr>] \<rparr>
         else
           c \<lparr> isProcessingConnections := False,
               reveals := take k (reveals c) @ drop (Suc k) (reveals c) \<rparr>)
      else c)"

section \<open>Invariants and observations\<close>

definition mock_flag_consistent :: "GenerationState \<Rightarrow> bool" where
  "mock_flag_consistent s = (hasMockNodes s = (mockNodes s \<noteq> []))"

text \<open>A session: the events in arrival order, each with its two clock readings.\<close>

fun run :: "(nat \<times> nat \<times> event) list \<Rightarrow> Hook \<Rightarrow> error + Hook" where
  "run [] h = Inr h"
| "run ((arrival, now, ev) # rest) h =
     (case handleSSEMessage arrival now h ev of Inl e \<Rightarrow> Inl e | Inr h' \<Rightarrow> run rest h')"

definition node_count :: "error + Hook \<Rightarrow> nat option" where
  "node_count r = (case r of Inl e \<Rightarrow> None | Inr h \<Rightarrow> Some (length (nodes (state h))))"

definition connection_count :: "error + Hook \<Rightarrow> nat option" where
  "connection_count r = (case r of Inl e \<Rightarrow> None | Inr h \<Rightarrow> Some (length (connections (state h))))"

text \<open>
  The extraction keeps the connections found so far and the keys of their pairs; a pair
  is added only when its key is new.
\<close>

definition connection_key :: "InternalConnection \<Rightarrow> string" where
  "connection_key c = js_str (source c) @ ''_to_'' @ js_str (target c)"

definition endpoints :: "InternalConnection \<Rightarrow> jsval \<times> jsval" where
  "endpoints c = (source c, target c)"

definition extraction_ok :: "InternalWorkflowNode list \<Rightarrow> extraction \<Rightarrow> bool" where
  "extraction_ok ns acc =
     ((\<forall>c \<in> set (fst acc). (\<exists>n \<in> set ns. source c = Some (nodeId n)) \<and> source c \<noteq> target c
                            \<and> connection_key c \<in> set (snd acc))
      \<and> distinct (map endpoints (fst acc)))"

section \<open>Sample inputs\<close>

definition sample_hook :: Hook where
  "sample_hook =
     \<lparr> state = (createInitialState (Some ''g1'')) \<lparr> isComplete := True, hasError := True \<rparr>,
       processedEventIds = [], received = 0, processed = 0 \<rparr>"

definition initial_hook :: Hook where
  "initial_hook =
     \<lparr> state = createInitialState (Some ''g1''), processedEventIds = [], received = 0, processed = 0 \<rparr>"

definition planner_done :: event where
  "planner_done =
     [(''step'', JStr ''architecture_planner''), (''status'', JStr ''done''),
      (''data'', JObj [(''summary'', JArr [JStr ''Read Form'', JStr ''Store Row''])])]"

definition real_node :: InternalWorkflowNode where
  "real_node =
     \<lparr> nodeId = JStr ''HttpRequestNode_62416'', name = JStr ''Fetch page'',
       description = JStr ''Calls the API'', status = Some Idle, params = None, loop_text = None,
       category = Some Processing, icon = Some ''web'', inputs = Some [],
       outputs = Some [(''result'', ''Object''), (''success'', ''Boolean'')],
       isMock = None, isArchitecturePlanner = None \<rparr>"

definition placeholder_node :: InternalWorkflowNode where
  "placeholder_node =
     \<lparr> nodeId = JStr ''mock_fetch_page_17_0'', name = JStr ''Fetch page'',
       description = JStr ''Fetch page - generating details...'', status = Some Generating,
       params = None, loop_text = None,
       category = Some Processing, icon = Some ''settings'', inputs = Some [],
       outputs = Some [(''result'', ''Object''), (''success'', ''Boolean'')],
       isMock = Some True, isArchitecturePlanner = None \<rparr>"

definition both_populations :: GenerationState where
  "both_populations =
     (createInitialState None) \<lparr> nodes := [real_node], mockNodes := [placeholder_node],
                                  hasMockNodes := True \<rparr>"

definition selector_done_two :: event where
  "selector_done_two =
     [(''step'', JStr ''node_selector''), (''status'', JStr ''done''),
      (''data'', JObj [(''nodes'', JArr
         [JObj [(''nodeId'', JStr ''A''), (''name'', JStr ''Read Form''), (''description'', JStr ''reads'')],
          JObj [(''nodeId'', JStr ''B''), (''name'', JStr ''Store Row''), (''description'', JStr ''stores'')]])])]"



definition referenced_node :: InternalWorkflowNode where
  "referenced_node =
     \<lparr> nodeId = JStr ''A'', name = JStr ''HttpRequestNode'', description = JStr ''HttpRequestNode node'',
       status = Some Configured, params = Some (JObj [(''url'', JStr ''https://example.org'')]),
       loop_text = Some JNull, category = Some Processing, icon = Some ''settings'',
       inputs = Some [(''url'', JStr ''https://example.org'')],
       outputs = Some [(''result'', ''Object''), (''success'', ''Boolean'')],
       isMock = None, isArchitecturePlanner = None \<rparr>"

definition referring_node :: InternalWorkflowNode where
  "referring_node =
     \<lparr> nodeId = JStr ''B'', name = JStr ''Save'', description = JStr ''StoreNode node'',
       status = Some Configured,
       params = Some (JObj [(''body'', JStr ''{{$A.body}} {{$A.title}} {{$B.own}} {{$C.other}}''),
                            (''again'', JStr ''{{$A}}''), (''count'', JNum 3 0)]),
       loop_text = Some JNull, category = Some Output, icon = Some ''database'',
       inputs = Some [], outputs = Some [(''result'', ''Object''), (''success'', ''Boolean'')],
       isMock = None, isArchitecturePlanner = None \<rparr>"

definition record_A :: string where
  "record_A =
     ''id='' @ [CHR 0x27] @ ''A'' @ [CHR 0x27] @ '' name='' @ [CHR 0x27] @ ''HttpRequestNode'' @ [CHR 0x27] @
     '' type='' @ [CHR 0x27] @ ''HttpRequestNode'' @ [CHR 0x27] @
     '' params=[NodeParams(param_name='' @ [CHR 0x27] @ ''url'' @ [CHR 0x27] @
     '', param_value='' @ [CHR 0x27] @ ''https://example.org'' @ [CHR 0x27] @ '')] loop_over=None''"

definition record_B :: string where
  "record_B =
     ''id='' @ [CHR 0x27] @ ''B'' @ [CHR 0x27] @ '' name='' @ [CHR 0x27] @ ''Save'' @ [CHR 0x27] @
     '' type='' @ [CHR 0x27] @ ''StoreNode'' @ [CHR 0x27] @
     '' params=[NodeParams(param_name='' @ [CHR 0x27] @ ''body'' @ [CHR 0x27] @
     '', param_value='' @ [CHR 0x27] @ ''{{$A.body}}'' @ [CHR 0x27] @ '')] loop_over=None''"

definition recovery_name :: string where
  "recovery_name = ''['' @ [CHR 0x22] @ record_A @ [CHR 0x22] @ '', '' @ [CHR 0x22] @ record_B @ [CHR 0x22] @ '']''"

definition recovery_data :: json where
  "recovery_data = JObj [(''nodeId'', JStr ''unknown''), (''name'', JStr recovery_name)]"

definition recovery_event :: event where
  "recovery_event =
     [(''step'', JStr ''node_configurator''), (''status'', JStr ''done''), (''data'', recovery_data)]"

definition connection_done_bare :: event where
  "connection_done_bare = [(''step'', JStr ''connection_builder''), (''status'', JStr ''done'')]"

definition connection_done_empty :: event where
  "connection_done_empty =
     [(''step'', JStr ''connection_builder''), (''status'', JStr ''done''), (''data'', JObj [])]"

definition edge_AB :: InternalConnection where
  "edge_AB = \<lparr> source = Some (JStr ''A''), target = Some (JStr ''B''), edge_id = Some ''edge_A_B_0'' \<rparr>"

definition edge_BA :: InternalConnection where
  "edge_BA = \<lparr> source = Some (JStr ''B''), target = Some (JStr ''A''), edge_id = Some ''edge_B_A_1'' \<rparr>"

definition edge_AC :: InternalConnection where
  "edge_AC = \<lparr> source = Some (JStr ''A''), target = Some (JStr ''HttpRequestNode_62416''),
               edge_id = Some ''edge_A_HttpRequestNode_62416'' \<rparr>"

definition two_node_state :: GenerationState where
  "two_node_state =
     (createInitialState None) \<lparr> nodes := [referenced_node, referring_node],
                                  connections := [edge_AB, edge_BA] \<rparr>"

definition three_node_state :: GenerationState where
  "three_node_state =
     (createInitialState None) \<lparr> nodes := [referenced_node, referring_node, real_node],
                                  connections := [edge_AC] \<rparr>"

text \<open>The reveal for two nodes has started and has rendered its first edge.\<close>

definition mid_flight :: Coordinator where
  "mid_flight = connectionsEffect two_node_state (nodeCountEffect two_node_state initialCoordinator)"


definition record_B_call :: string where
  "record_B_call =
     ''id='' @ [CHR 0x27] @ ''B'' @ [CHR 0x27] @ '' name='' @ [CHR 0x27] @ ''Save'' @ [CHR 0x27] @
     '' type='' @ [CHR 0x27] @ ''StoreNode'' @ [CHR 0x27] @
     '' params=[NodeParams(param_name='' @ [CHR 0x27] @ ''body'' @ [CHR 0x27] @
     '', param_value='' @ [CHR 0x27] @ ''trim(x) {{$A.body}}'' @ [CHR 0x27] @ '')] loop_over=None''"

definition recovery_event_call :: event where
  "recovery_event_call =
     [(''step'', JStr ''node_configurator''), (''status'', JStr ''done''),
      (''data'', JObj [(''nodeId'', JStr ''unknown''),
                       (''name'', JStr (''['' @ [CHR 0x22] @ record_A @ [CHR 0x22] @ '', '' @
                                         [CHR 0x22] @ record_B_call @ [CHR 0x22] @ '']''))])]"

section \<open>Properties of the reducer\<close>

lemma bindE_Inr_iff: "bindE m f = Inr y \<longleftrightarrow> (\<exists>x. m = Inr x \<and> f x = Inr y)"
  by (cases m) (simp_all add: bindE_def)

lemma mapE_map:
  "mapE f xs = Inr ys \<Longrightarrow> (\<And>x y. x \<in> set xs \<Longrightarrow> f x = Inr y \<Longrightarrow> g y = h x) \<Longrightarrow> map g ys = map h xs"
proof (induction xs arbitrary: ys)
  case Nil
  then show ?case by simp
next
  case (Cons x xs)
  from Cons.prems(1) obtain y ys' where
    y: "f x = Inr y" and r: "mapE f xs = Inr ys'" and ys: "ys = y # ys'"
    by (auto split: sum.splits)
  have "map g ys' = map h xs"
    using Cons.IH[OF r] Cons.prems(2) by simp
  moreover have "g y = h x" using Cons.prems(2)[of x y] y by simp
  ultimately show ?case using ys by simp
qed

lemma mapE_length: "mapE f xs = Inr ys \<Longrightarrow> length ys = length xs"
  using mapE_map[of f xs ys "\<lambda>y. ()" "\<lambda>x. ()"] by (metis length_map)

lemma planner_phase_fields:
  assumes "planner_phase now step st data s = Inr s'"
  shows "isComplete s' = isComplete s" "hasError s' = hasError s" "nodes s' = nodes s"
    "connections s' = connections s" "chatMessages s' = chatMessages s"
  using assms by (auto simp: planner_phase_def Let_def bindE_Inr_iff split: if_splits)

lemma selector_phase_fields:
  assumes "selector_phase step st data s = Inr s'"
  shows "isComplete s' = isComplete s" "hasError s' = hasError s"
    "connections s' = connections s" "chatMessages s' = chatMessages s"
  using assms by (auto simp: selector_phase_def bindE_Inr_iff split: if_splits)

lemma connection_phase_fields:
  assumes "connection_phase step st data s = Inr s'"
  shows "isComplete s' = isComplete s" "hasError s' = hasError s" "nodes s' = nodes s"
    "mockNodes s' = mockNodes s" "hasMockNodes s' = hasMockNodes s" "chatMessages s' = chatMessages s"
  using assms by (auto simp: connection_phase_def bindE_Inr_iff split: if_splits)

lemma configurator_phase_fields:
  assumes "configurator_phase step st data s = Inr s'"
  shows "isComplete s' = isComplete s" "hasError s' = hasError s"
    "mockNodes s' = mockNodes s" "hasMockNodes s' = hasMockNodes s" "chatMessages s' = chatMessages s"
  using assms by (auto simp: configurator_phase_def bindE_Inr_iff split: if_splits)

lemma database_phase_fields:
  assumes "database_phase step st data s = Inr s'"
  shows "isComplete s' = isComplete s" "hasError s' = hasError s" "nodes s' = nodes s"
    "connections s' = connections s"
    "mockNodes s' = mockNodes s" "hasMockNodes s' = hasMockNodes s" "chatMessages s' = chatMessages s"
  using assms by (auto simp: database_phase_def bindE_Inr_iff split: if_splits)

lemma prompt_phase_fields:
  "isComplete (prompt_phase now step st data s) = isComplete s"
  "hasError (prompt_phase now step st data s) = hasError s"
  "nodes (prompt_phase now step st data s) = nodes s"
  "connections (prompt_phase now step st data s) = connections s"
  "mockNodes (prompt_phase now step st data s) = mockNodes s"
  "hasMockNodes (prompt_phase now step st data s) = hasMockNodes s"
  by (simp_all add: prompt_phase_def)

lemma error_phase_fields:
  "isComplete (error_phase now step st data s) = isComplete s"
  "hasError s \<Longrightarrow> hasError (error_phase now step st data s)"
  "nodes (error_phase now step st data s) = nodes s"
  "connections (error_phase now step st data s) = connections s"
  "mockNodes (error_phase now step st data s) = mockNodes s"
  "hasMockNodes (error_phase now step st data s) = hasMockNodes s"
  by (simp_all add: error_phase_def)

lemma system_event_fields:
  "isComplete s \<Longrightarrow> isComplete (system_event now s ev)"
  "hasError s \<Longrightarrow> hasError (system_event now s ev)"
  "nodes (system_event now s ev) = nodes s"
  "connections (system_event now s ev) = connections s"
  "mockNodes (system_event now s ev) = mockNodes s"
  "hasMockNodes (system_event now s ev) = hasMockNodes s"
  by (simp_all add: system_event_def)

lemma step_event_phases:
  assumes "step_event now s ev = Inr s'"
  obtains s1 s2 s3 s4 s5 where
    "planner_phase now (map_of ev ''step'') (map_of ev ''status'') (map_of ev ''data'')
       (prompt_phase now (map_of ev ''step'') (map_of ev ''status'') (map_of ev ''data'')
          (s \<lparr> currentStep := map_of ev ''step'' \<rparr>)) = Inr s1"
    "selector_phase (map_of ev ''step'') (map_of ev ''status'') (map_of ev ''data'') s1 = Inr s2"
    "connection_phase (map_of ev ''step'') (map_of ev ''status'') (map_of ev ''data'') s2 = Inr s3"
    "configurator_phase (map_of ev ''step'') (map_of ev ''status'') (map_of ev ''data'') s3 = Inr s4"
    "database_phase (map_of ev ''step'') (map_of ev ''status'') (map_of ev ''data'') s4 = Inr s5"
    "s' = error_phase now (map_of ev ''step'') (map_of ev ''status'') (map_of ev ''data'') s5"
  using assms unfolding step_event_def Let_def bindE_Inr_iff by auto

lemma step_event_flags:
  assumes "step_event now s ev = Inr s'"
  shows "isComplete s \<Longrightarrow> isComplete s'" and "hasError s \<Longrightarrow> hasError s'"
proof -
  from assms obtain s1 s2 s3 s4 s5 where p:
    "planner_phase now (map_of ev ''step'') (map_of ev ''status'') (map_of ev ''data'')
       (prompt_phase now (map_of ev ''step'') (map_of ev ''status'') (map_of ev ''data'')
          (s \<lparr> currentStep := map_of ev ''step'' \<rparr>)) = Inr s1"
    "selector_phase (map_of ev ''step'') (map_of ev ''status'') (map_of ev ''data'') s1 = Inr s2"
    "connection_phase (map_of ev ''step'') (map_of ev ''status'') (map_of ev ''data'') s2 = Inr s3"
    "configurator_phase (map_of ev ''step'') (map_of ev ''status'') (map_of ev ''data'') s3 = Inr s4"
    "database_phase (map_of ev ''step'') (map_of ev ''status'') (map_of ev ''data'') s4 = Inr s5"
    "s' = error_phase now (map_of ev ''step'') (map_of ev ''status'') (map_of ev ''data'') s5"
    by (rule step_event_phases)
  have c: "isComplete s5 = isComplete s"
    using planner_phase_fields(1)[OF p(1)] selector_phase_fields(1)[OF p(2)]
      connection_phase_fields(1)[OF p(3)] configurator_phase_fields(1)[OF p(4)]
      database_phase_fields(1)[OF p(5)]
    by (simp add: prompt_phase_fields)
  have e: "hasError s5 = hasError s"
    using planner_phase_fields(2)[OF p(1)] selector_phase_fields(2)[OF p(2)]
      connection_phase_fields(2)[OF p(3)] configurator_phase_fields(2)[OF p(4)]
      database_phase_fields(2)[OF p(5)]
    by (simp add: prompt_phase_fields)
  show "isComplete s \<Longrightarrow> isComplete s'" using c p(6) by (simp add: error_phase_fields)
  show "hasError s \<Longrightarrow> hasError s'" using e p(6) by (simp add: error_phase_fields)
qed

lemma reduce_flags:
  assumes "reduce now s ev = Inr s'"
  shows "isComplete s \<Longrightarrow> isComplete s'" and "hasError s \<Longrightarrow> hasError s'"
  using assms step_event_flags[of now s ev s'] system_event_fields(1,2)[of s now ev]
  by (auto simp: reduce_def split: if_splits)

text \<open>The sample payload of two misrouted records.\<close>

lemma recovery_event_fields:
  "map_of recovery_event ''step'' = Some (JStr ''node_configurator'')"
  "map_of recovery_event ''status'' = Some (JStr ''done'')"
  "map_of recovery_event ''data'' = Some recovery_data"
  "map_of recovery_event ''type'' = None"
  by (simp_all add: recovery_event_def)

lemma recovery_event_sanitized: "sanitizeEventData recovery_event = recovery_event"
  by (simp add: sanitizeEventData_def isSSEStepEvent_def recovery_event_fields is_str_def
      recovery_data_def)





lemma handle_flags:
  assumes "handleSSEMessage arrival now h ev = Inr h'"
  shows "isComplete (state h) \<Longrightarrow> isComplete (state h')" and "hasError (state h) \<Longrightarrow> hasError (state h')"
  using assms reduce_flags[of now "state h" "sanitizeEventData ev"]
  by (auto simp: handleSSEMessage_def bindE_Inr_iff split: if_splits)

text \<open>
  C3: once \<open>isComplete\<close> or \<open>hasError\<close> is true, handling a further event never sets
  the flag back to false, nor does folding the chat or seeding mock nodes; the reset
  operation is what clears both.
\<close>

theorem terminal_flags_stable:
  assumes "handleSSEMessage arrival now h ev = Inr h'"
  shows "(isComplete (state h) \<longrightarrow> isComplete (state h')) \<and>
         (hasError (state h) \<longrightarrow> hasError (state h')) \<and>
         isComplete (toggleChat (state h)) = isComplete (state h) \<and>
         hasError (toggleChat (state h)) = hasError (state h) \<and>
         (setMockNodes now' nodeNames (state h) = Inr s' \<longrightarrow>
            isComplete s' = isComplete (state h) \<and> hasError s' = hasError (state h)) \<and>
         \<not> isComplete (state (reset gid h')) \<and> \<not> hasError (state (reset gid h'))"
proof -
  have "isComplete s' = isComplete (state h) \<and> hasError s' = hasError (state h)"
    if "setMockNodes now' nodeNames (state h) = Inr s'"
    using that by (auto simp: setMockNodes_def bindE_Inr_iff)
  then show ?thesis
    using handle_flags[OF assms] by (simp add: reset_def createInitialState_def toggleChat_def)
qed

theorem terminal_flags_stable_witness:
  "isComplete (state sample_hook) \<and> hasError (state sample_hook) \<and>
   (\<exists>h'. handleSSEMessage 3 4 sample_hook
            [(''step'', JStr ''node_selector''), (''status'', JStr ''started''), (''data'', JObj [])] = Inr h' \<and>
          isComplete (state h') \<and> hasError (state h') \<and>
          \<not> isComplete (state (reset None h')) \<and> \<not> hasError (state (reset None h'))) \<and>
   (\<exists>s'. setMockNodes 5 [JStr ''Read Form''] (state sample_hook) = Inr s' \<and> isComplete s' \<and> hasError s')"
proof -
  have a: "isComplete (state sample_hook)" "hasError (state sample_hook)"
    by (simp_all add: sample_hook_def)
  have "\<not> isl (handleSSEMessage 3 4 sample_hook
            [(''step'', JStr ''node_selector''), (''status'', JStr ''started''), (''data'', JObj [])])"
    by code_simp
  then obtain h' where e: "handleSSEMessage 3 4 sample_hook
            [(''step'', JStr ''node_selector''), (''status'', JStr ''started''), (''data'', JObj [])] = Inr h'"
    by (auto simp: isl_def) (metis sum.exhaust_sel)
  have "\<not> isl (setMockNodes 5 [JStr ''Read Form''] (state sample_hook))"
    by code_simp
  then obtain s' where f: "setMockNodes 5 [JStr ''Read Form''] (state sample_hook) = Inr s'"
    by (auto simp: isl_def) (metis sum.exhaust_sel)
  from terminal_flags_stable[OF e, of 5 "[JStr ''Read Form'']" s' None] a e f show ?thesis by blast
qed

lemma sanitize_system: "isSSESystemEvent ev \<Longrightarrow> sanitizeEventData ev = ev"
  by (simp add: sanitizeEventData_def isSSESystemEvent_def isSSEStepEvent_def)

lemma reduce_other_system:
  assumes "isSSESystemEvent ev" "\<not> is_str (map_of ev ''type'') ''connected''"
    "\<not> is_str (map_of ev ''type'') ''status''"
  shows "reduce now s ev = Inr s"
  using assms by (simp add: reduce_def system_event_def)

text \<open>
  C9: a system event whose type is neither \<open>connected\<close> nor \<open>status\<close> (so also
  \<open>status_change\<close>, \<open>complete\<close>, \<open>heartbeat\<close> and \<open>error\<close>) leaves every field of the state
  as it was: no flag is set and no chat message is appended.
\<close>

theorem other_system_events_ignored:
  assumes "isSSESystemEvent ev"
    and "\<not> is_str (map_of ev ''type'') ''connected''"
    and "\<not> is_str (map_of ev ''type'') ''status''"
  shows "reduce now s (sanitizeEventData ev) = Inr s \<and>
         (\<exists>h'. handleSSEMessage arrival now h ev = Inr h' \<and> state h' = state h)"
proof -
  have r: "reduce now s' (sanitizeEventData ev) = Inr s'" for s'
    using assms by (simp add: sanitize_system reduce_other_system)
  show ?thesis
    using r[of s] r[of "state h"] by (simp add: handleSSEMessage_def bindE_def)
qed

theorem other_system_events_ignored_witness:
  "isSSESystemEvent [(''type'', JStr ''error''), (''message'', JStr ''boom'')] \<and>
   reduce 5 (state initial_hook) (sanitizeEventData [(''type'', JStr ''error''), (''message'', JStr ''boom'')])
     = Inr (state initial_hook) \<and>
   \<not> hasError (state initial_hook) \<and> chatMessages (state initial_hook) = [] \<and>
   (\<exists>h'. handleSSEMessage 4 5 initial_hook [(''type'', JStr ''error''), (''message'', JStr ''boom'')] = Inr h' \<and>
          state h' = state initial_hook)"
proof -
  have a: "isSSESystemEvent [(''type'', JStr ''error''), (''message'', JStr ''boom'')]"
    by (simp add: isSSESystemEvent_def)
  have b: "\<not> is_str (map_of [(''type'', JStr ''error''), (''message'', JStr ''boom'')] ''type'') ''connected''"
    "\<not> is_str (map_of [(''type'', JStr ''error''), (''message'', JStr ''boom'')] ''type'') ''status''"
    by (simp_all add: is_str_def)
  have c: "\<not> hasError (state initial_hook) \<and> chatMessages (state initial_hook) = []"
    by (simp add: initial_hook_def createInitialState_def)
  from other_system_events_ignored[OF a b, of 5 "state initial_hook" 4 initial_hook] a c
  show ?thesis by simp
qed

lemma handled_key_recorded:
  assumes "handleSSEMessage arrival now h ev = Inr h1"
  shows "eventId ev arrival \<in> set (processedEventIds h1)"
  using assms by (auto simp: handleSSEMessage_def bindE_Inr_iff split: if_splits)

text \<open>
  C4: an event whose key (step or type, and arrival time) has been seen is discarded:
  handling it again leaves the state, and the whole hook, as they were after the first time.
\<close>

theorem duplicate_key_discarded:
  assumes "handleSSEMessage arrival now h ev = Inr h1"
    and "eventId ev' arrival' = eventId ev arrival"
  shows "handleSSEMessage arrival' now' h1 ev' = Inr h1"
  using handled_key_recorded[OF assms(1)] assms(2) by (simp add: handleSSEMessage_def)

theorem duplicate_key_discarded_witness:
  "\<exists>h1. handleSSEMessage 7 8 initial_hook [(''type'', JStr ''status''), (''status'', JStr ''COMPLETED'')] = Inr h1 \<and>
         isComplete (state h1) \<and> length (chatMessages (state h1)) = 1 \<and>
         handleSSEMessage 7 9 h1 [(''type'', JStr ''status''), (''status'', JStr ''COMPLETED'')] = Inr h1"
proof -
  have "\<not> isl (handleSSEMessage 7 8 initial_hook [(''type'', JStr ''status''), (''status'', JStr ''COMPLETED'')])"
    by code_simp
  then obtain h1 where
    e: "handleSSEMessage 7 8 initial_hook [(''type'', JStr ''status''), (''status'', JStr ''COMPLETED'')] = Inr h1"
    by (auto simp: isl_def) (metis sum.exhaust_sel)
  have f: "isComplete (state h1) \<and> length (chatMessages (state h1)) = 1"
    using e by (auto simp: handleSSEMessage_def bindE_Inr_iff reduce_def isSSESystemEvent_def
        sanitizeEventData_def isSSEStepEvent_def system_event_def is_str_def initial_hook_def
        createInitialState_def eventId_def split: if_splits)
  from duplicate_key_discarded[OF e refl, of 9] e f show ?thesis by blast
qed

lemma planner_phase_mock:
  assumes "planner_phase now step st data s = Inr s'" "mock_flag_consistent s"
  shows "mock_flag_consistent s'"
  using assms by (auto simp: planner_phase_def Let_def bindE_Inr_iff mock_flag_consistent_def split: if_splits)

lemma selector_phase_mock:
  assumes "selector_phase step st data s = Inr s'" "mock_flag_consistent s"
  shows "mock_flag_consistent s'"
  using assms by (auto simp: selector_phase_def bindE_Inr_iff mock_flag_consistent_def split: if_splits)

lemma step_event_mock:
  assumes "step_event now s ev = Inr s'" "mock_flag_consistent s"
  shows "mock_flag_consistent s'"
proof -
  from assms(1) obtain s1 s2 s3 s4 s5 where p:
    "planner_phase now (map_of ev ''step'') (map_of ev ''status'') (map_of ev ''data'')
       (prompt_phase now (map_of ev ''step'') (map_of ev ''status'') (map_of ev ''data'')
          (s \<lparr> currentStep := map_of ev ''step'' \<rparr>)) = Inr s1"
    "selector_phase (map_of ev ''step'') (map_of ev ''status'') (map_of ev ''data'') s1 = Inr s2"
    "connection_phase (map_of ev ''step'') (map_of ev ''status'') (map_of ev ''data'') s2 = Inr s3"
    "configurator_phase (map_of ev ''step'') (map_of ev ''status'') (map_of ev ''data'') s3 = Inr s4"
    "database_phase (map_of ev ''step'') (map_of ev ''status'') (map_of ev ''data'') s4 = Inr s5"
    "s' = error_phase now (map_of ev ''step'') (map_of ev ''status'') (map_of ev ''data'') s5"
    by (rule step_event_phases)
  have "mock_flag_consistent (prompt_phase now (map_of ev ''step'') (map_of ev ''status'') (map_of ev ''data'')
          (s \<lparr> currentStep := map_of ev ''step'' \<rparr>))"
    using assms(2) by (simp add: mock_flag_consistent_def prompt_phase_fields)
  from planner_phase_mock[OF p(1) this] have "mock_flag_consistent s1" .
  from selector_phase_mock[OF p(2) this] have "mock_flag_consistent s2" .
  then have "mock_flag_consistent s5"
    using connection_phase_fields(4,5)[OF p(3)] configurator_phase_fields(3,4)[OF p(4)]
      database_phase_fields(5,6)[OF p(5)]
    by (simp add: mock_flag_consistent_def)
  then show ?thesis using p(6) by (simp add: mock_flag_consistent_def error_phase_fields)
qed

lemma reduce_mock:
  assumes "reduce now s ev = Inr s'" "mock_flag_consistent s"
  shows "mock_flag_consistent s'"
  using assms step_event_mock[of now s ev s']
  by (auto simp: reduce_def mock_flag_consistent_def system_event_fields split: if_splits)

text \<open>
  C10: \<open>hasMockNodes\<close> is true exactly when \<open>mockNodes\<close> is not empty, and handling an
  event, seeding mock nodes and reset all keep it so; the initial state satisfies it.
\<close>

theorem mock_flag_invariant:
  assumes "mock_flag_consistent (state h)"
  shows "(handleSSEMessage arrival now h ev = Inr h' \<longrightarrow> mock_flag_consistent (state h')) \<and>
         (setMockNodes now' nodeNames (state h) = Inr s' \<longrightarrow> mock_flag_consistent s') \<and>
         mock_flag_consistent (state (reset gid h)) \<and>
         mock_flag_consistent (createInitialState gid)"
proof -
  have "mock_flag_consistent (state h')" if "handleSSEMessage arrival now h ev = Inr h'"
    using that assms reduce_mock[of now "state h" "sanitizeEventData ev"]
    by (auto simp: handleSSEMessage_def bindE_Inr_iff split: if_splits)
  moreover have "mock_flag_consistent s'" if "setMockNodes now' nodeNames (state h) = Inr s'"
    using that by (auto simp: setMockNodes_def bindE_Inr_iff mock_flag_consistent_def)
  moreover have "mock_flag_consistent (createInitialState g)" for g
    by (simp add: createInitialState_def mock_flag_consistent_def)
  ultimately show ?thesis by (simp add: reset_def)
qed

theorem mock_flag_invariant_witness:
  "mock_flag_consistent (state initial_hook) \<and>
   (\<exists>h'. handleSSEMessage 1 2 initial_hook planner_done = Inr h' \<and>
          length (mockNodes (state h')) = 2 \<and> hasMockNodes (state h') \<and> mock_flag_consistent (state h')) \<and>
   (\<exists>s'. setMockNodes 3 [JStr ''Read Form''] (state initial_hook) = Inr s' \<and>
          length (mockNodes s') = 1 \<and> hasMockNodes s' \<and> mock_flag_consistent s') \<and>
   mock_flag_consistent (state (reset None initial_hook))"
proof -
  have a: "mock_flag_consistent (state initial_hook)"
    by (simp add: initial_hook_def createInitialState_def mock_flag_consistent_def)
  have "(case handleSSEMessage 1 2 initial_hook planner_done of
           Inl e \<Rightarrow> False
         | Inr h' \<Rightarrow> length (mockNodes (state h')) = 2 \<and> hasMockNodes (state h'))"
    by code_simp
  then obtain h' where
    e: "handleSSEMessage 1 2 initial_hook planner_done = Inr h'"
      "length (mockNodes (state h')) = 2" "hasMockNodes (state h')"
    by (auto split: sum.splits)
  have "(case setMockNodes 3 [JStr ''Read Form''] (state initial_hook) of
           Inl e \<Rightarrow> False
         | Inr s' \<Rightarrow> length (mockNodes s') = 1 \<and> hasMockNodes s')"
    by code_simp
  then obtain s' where
    f: "setMockNodes 3 [JStr ''Read Form''] (state initial_hook) = Inr s'"
      "length (mockNodes s') = 1" "hasMockNodes s'"
    by (auto split: sum.splits)
  from mock_flag_invariant[OF a, of 1 2 planner_done h' 3 "[JStr ''Read Form'']" s' None] a e f
  show ?thesis by fastforce
qed

lemma convertToFlowNode_id:
  "convertToFlowNode node index n = Inr fn \<Longrightarrow> flow_id fn = nodeId node \<and> data_isMock fn = isMock node"
  by (auto simp: convertToFlowNode_def bindE_Inr_iff)

lemma map_snd_enumerate': "map (\<lambda>p. f (snd p)) (enumerate n xs) = map f xs"
  by (induction xs arbitrary: n) simp_all

text \<open>
  C2: the projector renders the real nodes whenever there are any and the mock nodes
  only when there is no real node: the rendered nodes are, one for one and in order, the
  nodes of the population it chose, never a mixture of both.
\<close>

theorem projector_prefers_real_nodes:
  assumes "flowNodes gs = Inr fns"
  shows "nodesToRender gs = (if nodes gs \<noteq> [] then nodes gs else mockNodes gs) \<and>
         map flow_id fns = map nodeId (nodesToRender gs) \<and>
         map data_isMock fns = map isMock (nodesToRender gs) \<and>
         (nodes gs \<noteq> [] \<longrightarrow> map flow_id fns = map nodeId (nodes gs)) \<and>
         (nodes gs = [] \<longrightarrow> map flow_id fns = map nodeId (mockNodes gs))"
proof -
  have sel: "nodesToRender gs = (if nodes gs \<noteq> [] then nodes gs else mockNodes gs)"
    by (simp add: nodesToRender_def)
  have m: "mapE (\<lambda>(index, node). convertToFlowNode node index (length (nodesToRender gs)))
             (enumerate 0 (nodesToRender gs)) = Inr fns"
    using assms by (simp add: flowNodes_def)
  have ids: "map flow_id fns = map (\<lambda>p. nodeId (snd p)) (enumerate 0 (nodesToRender gs))"
    by (rule mapE_map[OF m]) (auto dest: convertToFlowNode_id)
  have mocks: "map data_isMock fns = map (\<lambda>p. isMock (snd p)) (enumerate 0 (nodesToRender gs))"
    by (rule mapE_map[OF m]) (auto dest: convertToFlowNode_id)
  from ids have ids': "map flow_id fns = map nodeId (nodesToRender gs)"
    by (simp only: map_snd_enumerate')
  from mocks have mocks': "map data_isMock fns = map isMock (nodesToRender gs)"
    by (simp only: map_snd_enumerate')
  show ?thesis using sel ids' mocks' by simp
qed

theorem projector_prefers_real_nodes_witness:
  "nodes both_populations \<noteq> [] \<and> mockNodes both_populations \<noteq> [] \<and>
   (\<exists>fns. flowNodes both_populations = Inr fns \<and>
           map flow_id fns = [JStr ''HttpRequestNode_62416''] \<and>
           map flow_id fns = map nodeId (nodes both_populations) \<and>
           map data_isMock fns = [None])"
proof -
  have a: "nodes both_populations = [real_node]" "mockNodes both_populations = [placeholder_node]"
    by (simp_all add: both_populations_def)
  have "\<not> isl (flowNodes both_populations)" by code_simp
  then obtain fns where e: "flowNodes both_populations = Inr fns"
    by (auto simp: isl_def) (metis sum.exhaust_sel)
  from projector_prefers_real_nodes[OF e] a e show ?thesis
    by (simp add: real_node_def)
qed




















lemma strict_eq_JStr: "strict_eq (Some (JStr s)) b = (b = Some (JStr s))"
  by (simp add: strict_eq_def)

lemma strict_eq_JStr_right: "strict_eq (Some v) (Some (JStr s)) = (v = JStr s)"
  by (cases v) (auto simp: strict_eq_def)

lemma add_reference_ok:
  assumes "extraction_ok ns acc"
  shows "extraction_ok ns (add_reference ns node m acc)"
proof (cases "str_match rx_reference_id m")
  case None
  then show ?thesis using assms by (simp add: add_reference_def split: prod.splits)
next
  case (Some nodeIdMatch)
  obtain conns seen where acc: "acc = (conns, seen)" by (cases acc)
  define src where "src = group1 nodeIdMatch"
  define key where "key = src @ ''_to_'' @ to_string (nodeId node)"
  define new where "new = \<lparr> source = Some (JStr src), target = Some (nodeId node),
                edge_id = Some (''edge_'' @ src @ ''_'' @ to_string (nodeId node)) \<rparr>"
  show ?thesis
  proof (cases "list_ex (\<lambda>n. strict_eq (Some (nodeId n)) (Some (JStr src))) ns
                \<and> \<not> strict_eq (Some (JStr src)) (Some (nodeId node)) \<and> key \<notin> set seen")
    case False
    then have "add_reference ns node m acc = acc"
      using Some acc by (auto simp: add_reference_def Let_def src_def key_def)
    then show ?thesis using assms by simp
  next
    case True
    then have r: "add_reference ns node m acc = (conns @ [new], seen @ [key])"
      using Some acc by (simp add: add_reference_def Let_def src_def key_def new_def)
    from True obtain n where n: "n \<in> set ns" "nodeId n = JStr src"
      by (auto simp: list_ex_iff strict_eq_JStr_right)
    from True have ne: "JStr src \<noteq> nodeId node"
      by (auto simp: strict_eq_JStr)
    have snew: "source new = Some (JStr src)" and tnew: "target new = Some (nodeId node)"
      by (simp_all add: new_def)
    have knew: "connection_key new = key"
      by (simp add: connection_key_def js_str_def snew tnew key_def)
    have old: "\<forall>c \<in> set conns. (\<exists>n \<in> set ns. source c = Some (nodeId n)) \<and> source c \<noteq> target c
                 \<and> connection_key c \<in> set seen"
      and dist: "distinct (map endpoints conns)"
      using assms acc by (simp_all add: extraction_ok_def)
    have fresh: "endpoints new \<notin> set (map endpoints conns)"
    proof
      assume "endpoints new \<in> set (map endpoints conns)"
      then obtain c where c: "c \<in> set conns" "endpoints c = endpoints new" by auto
      then have "source c = source new" "target c = target new"
        by (simp_all add: endpoints_def)
      then have "connection_key c = connection_key new"
        by (simp add: connection_key_def)
      moreover have "connection_key c \<in> set seen" using old c(1) by blast
      ultimately show False using True knew by simp
    qed
    have good: "(\<exists>n \<in> set ns. source new = Some (nodeId n)) \<and> source new \<noteq> target new
                \<and> connection_key new \<in> set (seen @ [key])"
      using n ne snew tnew knew by (auto intro: bexI[of _ n])
    have "\<forall>c \<in> set (conns @ [new]). (\<exists>n \<in> set ns. source c = Some (nodeId n)) \<and> source c \<noteq> target c
            \<and> connection_key c \<in> set (seen @ [key])"
    proof
      fix c assume "c \<in> set (conns @ [new])"
      then consider "c \<in> set conns" | "c = new" by auto
      then show "(\<exists>n \<in> set ns. source c = Some (nodeId n)) \<and> source c \<noteq> target c
                 \<and> connection_key c \<in> set (seen @ [key])"
      proof cases
        case 1
        with old show ?thesis by auto
      next
        case 2
        with good show ?thesis by simp
      qed
    qed
    moreover have "distinct (map endpoints (conns @ [new]))"
      using dist fresh by simp
    ultimately show ?thesis unfolding r extraction_ok_def by simp
  qed
qed

lemma scan_param_ok:
  assumes "extraction_ok ns acc"
  shows "extraction_ok ns (scan_param ns node entry acc)"
proof (cases "snd entry")
  case (JStr paramValue)
  show ?thesis
  proof (cases "str_match_all rx_reference paramValue")
    case None
    then show ?thesis using JStr assms by (simp add: scan_param_def)
  next
    case (Some variableMatches)
    have "extraction_ok ns (fold (add_reference ns node) variableMatches acc)"
      by (rule fold_invariant[where Q = "\<lambda>x. True"]) (simp_all add: assms add_reference_ok)
    then show ?thesis using JStr Some by (simp add: scan_param_def)
  qed
qed (use assms in \<open>simp_all add: scan_param_def\<close>)

lemma scan_node_ok:
  assumes "extraction_ok ns acc"
  shows "extraction_ok ns (scan_node ns node acc)"
proof -
  have "extraction_ok ns (fold (scan_param ns node) (entries (params node)) acc)"
    by (rule fold_invariant[where Q = "\<lambda>x. True"]) (simp_all add: assms scan_param_ok)
  then show ?thesis using assms by (simp add: scan_node_def)
qed

lemma extraction_ok_start: "extraction_ok ns ([], [])"
  by (simp add: extraction_ok_def)

lemma extraction_ok_all: "extraction_ok ns (fold (scan_node ns) ms ([], []))"
  by (rule fold_invariant[where Q = "\<lambda>x. True"]) (simp_all add: scan_node_ok extraction_ok_start)

text \<open>
  C7: every connection that the extraction emits has as its source the \<open>nodeId\<close> of a node
  of the list, its source differs from its target, and no two emitted connections have
  the same source and target.
\<close>

theorem extracted_connections_sound:
  "(\<forall>c \<in> set (extractConnectionsFromNodes ns).
      (\<exists>n \<in> set ns. source c = Some (nodeId n)) \<and> source c \<noteq> target c) \<and>
   distinct (map endpoints (extractConnectionsFromNodes ns))"
  using extraction_ok_all[of ns ns]
  unfolding extractConnectionsFromNodes_def extraction_ok_def by blast

theorem extracted_connections_sound_witness:
  "map endpoints (extractConnectionsFromNodes [referenced_node, referring_node])
     = [(Some (JStr ''A''), Some (JStr ''B''))] \<and>
   distinct (map endpoints (extractConnectionsFromNodes [referenced_node, referring_node])) \<and>
   Some (JStr ''A'') = Some (nodeId referenced_node)"
proof -
  have e: "map endpoints (extractConnectionsFromNodes [referenced_node, referring_node])
             = [(Some (JStr ''A''), Some (JStr ''B''))]"
    by code_simp
  have "nodeId referenced_node = JStr ''A''" by (simp add: referenced_node_def)
  with extracted_connections_sound[of "[referenced_node, referring_node]"] e
  show ?thesis by simp
qed

lemma corrupted_object: "corrupted data \<Longrightarrow> \<exists>fs. data = Some (JObj fs)"
proof -
  assume c: "corrupted data"
  then have "opt_get data ''nodeId'' = Some (JStr ''unknown'')"
    by (simp add: corrupted_def is_str_def)
  then show ?thesis
  proof (cases data)
    case None
    with \<open>opt_get data ''nodeId'' = Some (JStr ''unknown'')\<close> show ?thesis by simp
  next
    case (Some v)
    with \<open>opt_get data ''nodeId'' = Some (JStr ''unknown'')\<close> show ?thesis by (cases v) simp_all
  qed
qed

text \<open>
  What the recovery does when the node list grows: the parsed records become the nodes and
  the connections are those extracted from them.
\<close>

lemma recovery_general:
  assumes step: "is_str (map_of ev ''step'') ''node_configurator''"
    and st: "is_str (map_of ev ''status'') ''done''"
    and cor: "corrupted (map_of ev ''data'')"
    and len: "length (nodes s) < length (extract_nodes (opt_get (map_of ev ''data'') ''name''))"
  shows "\<exists>s'. reduce now s (sanitizeEventData ev) = Inr s' \<and>
              nodes s' = extract_nodes (opt_get (map_of ev ''data'') ''name'') \<and>
              connections s' = extractConnectionsFromNodes (nodes s')"
proof -
  from corrupted_object[OF cor] obtain fs where d: "map_of ev ''data'' = Some (JObj fs)" by blast
  have stepv: "map_of ev ''step'' = Some (JStr ''node_configurator'')"
    and stv: "map_of ev ''status'' = Some (JStr ''done'')"
    using step st by (simp_all add: is_str_def)
  have san: "sanitizeEventData ev = ev"
    by (simp add: sanitizeEventData_def isSSEStepEvent_def stepv stv d is_str_def)
  have sys: "\<not> isSSESystemEvent ev" "isSSEStepEvent ev"
    by (simp_all add: isSSESystemEvent_def isSSEStepEvent_def stepv stv)
  have ne: "extract_nodes (opt_get (Some (JObj fs)) ''name'') \<noteq> []"
    using len d by auto
  have upd: "updateNodeConfiguration ns (Some (JObj fs)) = Inr (extract_nodes (opt_get (Some (JObj fs)) ''name''))"
    for ns
    using cor ne by (simp add: updateNodeConfiguration_def d bindE_def)
  have "step_event now s ev =
          Inr (s \<lparr> currentStep := Some (JStr ''node_configurator''),
                 nodes := extract_nodes (opt_get (Some (JObj fs)) ''name''),
                 connections := extractConnectionsFromNodes (extract_nodes (opt_get (Some (JObj fs)) ''name'')),
                 showCanvas := True \<rparr>)"
    using len
    by (simp add: step_event_def Let_def stepv stv d prompt_phase_def planner_phase_def
        selector_phase_def connection_phase_def configurator_phase_def database_phase_def
        error_phase_def is_str_def bindE_def upd)
  then show ?thesis
    using sys by (simp add: reduce_def san d)
qed

text \<open>
  From the empty state the sample payload gives its two nodes and the connection from
  \<open>A\<close> to \<open>B\<close>. A payload whose value has a closing parenthesis before the reference gives
  the two nodes and no connection: the pattern for a parameter cuts the value there.
\<close>

lemma recovery_on_empty_state:
  "node_count (run [(1, 1, recovery_event)] initial_hook) = Some 2 \<and>
   connection_count (run [(1, 1, recovery_event)] initial_hook) = Some 1"
  by code_simp

lemma recovery_cut_at_parenthesis:
  "node_count (run [(1, 1, recovery_event_call)] initial_hook) = Some 2 \<and>
   connection_count (run [(1, 1, recovery_event_call)] initial_hook) = Some 0"
  by code_simp

text \<open>
  C1 in a session where a node selection has given two nodes before the misrouted payload
  arrives: the two parsed records replace the nodes and no connection is derived. The
  test for an extraction compares the lengths of the lists, and the list did not grow.
\<close>

theorem recovery_keeps_connections_on_two_nodes:
  "node_count (run [(1, 1, selector_done_two)] initial_hook) = Some 2 \<and>
   node_count (run [(1, 1, selector_done_two), (2, 2, recovery_event)] initial_hook) = Some 2 \<and>
   connection_count (run [(1, 1, selector_done_two), (2, 2, recovery_event)] initial_hook) = Some 0"
  by code_simp

text \<open>
  What the normalizer does guarantee: an event that is not a step event passes through
  unchanged, a step event leaves with an object as its data, and when the data arrived as
  an object the three steps with an array payload leave with that array.
\<close>

lemma sanitize_system_unchanged: "\<not> isSSEStepEvent ev \<Longrightarrow> sanitizeEventData ev = ev"
  by (simp add: sanitizeEventData_def)

lemma sanitize_data_object:
  assumes "isSSEStepEvent ev"
  shows "typeof_object (map_of (sanitizeEventData ev) ''data'') \<and> truthy (map_of (sanitizeEventData ev) ''data'')"
  using assms
  by (auto simp: sanitizeEventData_def update_conv' map_of_eq_None_iff split: if_splits)

lemma sanitize_arrays_when_object:
  assumes "isSSEStepEvent ev" "truthy (map_of ev ''data'')" "typeof_object (map_of ev ''data'')"
  shows "(is_str (map_of ev ''step'') ''node_selector'' \<longrightarrow>
            is_array (opt_get (map_of (sanitizeEventData ev) ''data'') ''nodes'')) \<and>
         (is_str (map_of ev ''step'') ''connection_builder'' \<longrightarrow>
            is_array (opt_get (map_of (sanitizeEventData ev) ''data'') ''connections'')) \<and>
         (is_str (map_of ev ''step'') ''database_setup'' \<longrightarrow>
            is_array (opt_get (map_of (sanitizeEventData ev) ''data'') ''databases''))"
  using assms
  by (auto simp: sanitizeEventData_def update_conv' is_str_def split: if_splits)

text \<open>
  C6 at a finished connection step that arrives without data: the normalizer returns the
  event with the empty object as data and no \<open>connections\<close> array in it, and the reducer
  throws on the normalized event.
\<close>

theorem sanitize_missing_data_leaves_no_array:
  "sanitizeEventData connection_done_bare = connection_done_empty \<and>
   opt_get (map_of (sanitizeEventData connection_done_bare) ''data'') ''connections'' = None \<and>
   reduce 1 (state initial_hook) (sanitizeEventData connection_done_bare) = Inl TypeError"
  by code_simp

theorem sanitize_missing_data_leaves_no_array_witness:
  "isSSEStepEvent connection_done_bare \<and>
   map_of connection_done_bare ''data'' = None \<and>
   \<not> is_array (opt_get (map_of (sanitizeEventData connection_done_bare) ''data'') ''connections'') \<and>
   isl (reduce 1 (state initial_hook) (sanitizeEventData connection_done_bare))"
proof -
  have a: "isSSEStepEvent connection_done_bare \<and> map_of connection_done_bare ''data'' = None"
    by (simp add: isSSEStepEvent_def connection_done_bare_def)
  have b: "opt_get (map_of (sanitizeEventData connection_done_bare) ''data'') ''connections'' = None"
    by (rule conjunct1[OF conjunct2[OF sanitize_missing_data_leaves_no_array]])
  have c: "reduce 1 (state initial_hook) (sanitizeEventData connection_done_bare) = Inl TypeError"
    by (rule conjunct2[OF conjunct2[OF sanitize_missing_data_leaves_no_array]])
  have "\<not> is_array (opt_get (map_of (sanitizeEventData connection_done_bare) ''data'') ''connections'')"
    by (simp only: b is_array.simps not_False_eq_True)
  moreover have "isl (reduce 1 (state initial_hook) (sanitizeEventData connection_done_bare))"
    by (simp only: c sum.disc)
  ultimately show ?thesis using a by blast
qed

lemma nodeCountEffect_reveals: "reveals (nodeCountEffect gs c) = reveals c"
  by (simp add: nodeCountEffect_def Let_def)

lemma nodeCountEffect_clears:
  assumes "lastNodeCount c < length (nodesToRender gs)"
  shows "edges (nodeCountEffect gs c) = [] \<and> \<not> isProcessingConnections (nodeCountEffect gs c)
         \<and> lastNodeCount (nodeCountEffect gs c) = length (nodesToRender gs)"
  using assms by (auto simp: nodeCountEffect_def nodesToRender_def Let_def)

lemma resume_appends_captured:
  assumes "k < length (reveals c)" "next_index (reveals c ! k) < length (captured (reveals c ! k))"
  shows "edges (resume k c) =
           edges c @ [convertToFlowEdge (captured (reveals c ! k) ! next_index (reveals c ! k))
                        (next_index (reveals c ! k))]"
  using assms by (simp add: resume_def Let_def)

text \<open>
  C8 on a reveal of two connections that has rendered its first edge when a third node
  arrives: the node-count effect clears the edges and the flag, the suspended reveal stays
  among the running ones, and when it wakes up it adds the second edge of the list it
  captured, also next to the first edge of the reveal that the connections effect has
  started anew.
\<close>

theorem stale_reveal_keeps_animating:
  "map fe_id (edges mid_flight) = [''edge_A_B_0''] \<and>
   isProcessingConnections mid_flight \<and>
   lastNodeCount mid_flight = 2 \<and>
   edges (nodeCountEffect three_node_state mid_flight) = [] \<and>
   \<not> isProcessingConnections (nodeCountEffect three_node_state mid_flight) \<and>
   map captured (reveals (nodeCountEffect three_node_state mid_flight)) = [[edge_AB, edge_BA]] \<and>
   map fe_id (edges (resume 0 (nodeCountEffect three_node_state mid_flight))) = [''edge_B_A_1''] \<and>
   map fe_id (edges (resume 0 (connectionsEffect three_node_state
                                 (nodeCountEffect three_node_state mid_flight))))
     = [''edge_A_HttpRequestNode_62416'', ''edge_B_A_1'']"
  by code_simp

end
